theory Spec2Isabelle
  imports Main "HOL-Library.Word"
begin

unbundle bit_operations_syntax

section \<open>The process environment of the capture subsystem\<close>

text \<open>
  \<^verbatim>\<open>log_capture.h\<close> works on the descriptor table of the process: \<^verbatim>\<open>pipe\<close>,
  \<^verbatim>\<open>dup\<close>, \<^verbatim>\<open>dup2\<close>, \<^verbatim>\<open>close\<close>, \<^verbatim>\<open>select\<close> and \<^verbatim>\<open>read\<close>. The table maps a
  descriptor to the open file it refers to; a pipe is a byte queue shared by its
  two ends. POSIX hands out the lowest free descriptor below the limit of the
  process, and a call that finds none fails with -1.
\<close>

type_synonym byte = "8 word"

datatype ofile = Device nat | PipeRead nat | PipeWrite nat

text \<open>A stdio stream over a descriptor; a \<^verbatim>\<open>FILE*\<close> is a \<open>FILE option\<close>, NULL being \<open>None\<close>.\<close>

datatype FILE = FILE (fileno: int)

text \<open>
  The four statics of \<^verbatim>\<open>log_capture.h\<close> live in the same record as the kernel side
  of the process; \<open>glog\<close> collects what the component itself reports through
  \<^verbatim>\<open>g_debug\<close> and \<^verbatim>\<open>g_warning\<close>.
\<close>

record proc =
  fdtab :: "int \<Rightarrow> ofile option"
  fd_limit :: int
  pipebuf :: "nat \<Rightarrow> byte list"
  npipes :: nat
  devout :: "nat \<Rightarrow> byte list"
  glog :: "(32 word \<times> string) list"
  webkit_log_pipe :: "int \<times> int"
  webkit_original_stdout :: "FILE option"
  webkit_original_stderr :: "FILE option"
  webkit_capture_enabled :: bool

datatype failure = WouldBlock | MemoryFault | SignedOverflow | BrokenPipe

subsection \<open>Constants of the logging facility\<close>

text \<open>
  The enumeration \<^verbatim>\<open>GLogLevelFlags\<close> of glib.h, which the sources include:
  two flags in the low bits, one bit per level above them, and the level mask as
  the complement of the two flags.
\<close>

definition G_LOG_FLAG_RECURSION :: "32 word" where
  "G_LOG_FLAG_RECURSION = push_bit 0 1"

definition G_LOG_FLAG_FATAL :: "32 word" where
  "G_LOG_FLAG_FATAL = push_bit 1 1"

definition G_LOG_LEVEL_ERROR :: "32 word" where
  "G_LOG_LEVEL_ERROR = push_bit 2 1"

definition G_LOG_LEVEL_CRITICAL :: "32 word" where
  "G_LOG_LEVEL_CRITICAL = push_bit 3 1"

definition G_LOG_LEVEL_WARNING :: "32 word" where
  "G_LOG_LEVEL_WARNING = push_bit 4 1"

definition G_LOG_LEVEL_MESSAGE :: "32 word" where
  "G_LOG_LEVEL_MESSAGE = push_bit 5 1"

definition G_LOG_LEVEL_INFO :: "32 word" where
  "G_LOG_LEVEL_INFO = push_bit 6 1"

definition G_LOG_LEVEL_DEBUG :: "32 word" where
  "G_LOG_LEVEL_DEBUG = push_bit 7 1"

definition G_LOG_LEVEL_MASK :: "32 word" where
  "G_LOG_LEVEL_MASK = NOT (G_LOG_FLAG_RECURSION OR G_LOG_FLAG_FATAL)"

definition g_debug :: "proc \<Rightarrow> string \<Rightarrow> proc" where
  "g_debug s msg = s\<lparr>glog := glog s @ [(G_LOG_LEVEL_DEBUG, msg)]\<rparr>"

definition g_warning :: "proc \<Rightarrow> string \<Rightarrow> proc" where
  "g_warning s msg = s\<lparr>glog := glog s @ [(G_LOG_LEVEL_WARNING, msg)]\<rparr>"

subsection \<open>System calls\<close>

definition fd_entry :: "proc \<Rightarrow> int \<Rightarrow> ofile option" where
  "fd_entry s fd = (if 0 \<le> fd \<and> fd < fd_limit s then fdtab s fd else None)"

definition lowest_free :: "(int \<Rightarrow> ofile option) \<Rightarrow> int \<Rightarrow> int option" where
  "lowest_free tab lim = find (\<lambda>i. tab i = None) [0..lim - 1]"

text \<open>
  \<^verbatim>\<open>pipe(webkit_log_pipe)\<close>: on success the two new descriptors are stored in the
  array and 0 is returned; on failure nothing changes and -1 is returned.
\<close>

definition sys_pipe :: "proc \<Rightarrow> int \<times> proc" where
  "sys_pipe s =
     (case lowest_free (fdtab s) (fd_limit s) of
        None \<Rightarrow> (- 1, s)
      | Some r \<Rightarrow>
          (case lowest_free ((fdtab s)(r \<mapsto> PipeRead (npipes s))) (fd_limit s) of
             None \<Rightarrow> (- 1, s)
           | Some w \<Rightarrow>
               (0, s\<lparr>fdtab := (fdtab s)(r \<mapsto> PipeRead (npipes s), w \<mapsto> PipeWrite (npipes s)),
                      pipebuf := (pipebuf s)(npipes s := []),
                      npipes := Suc (npipes s),
                      webkit_log_pipe := (r, w)\<rparr>)))"

definition sys_dup :: "proc \<Rightarrow> int \<Rightarrow> int \<times> proc" where
  "sys_dup s oldfd =
     (case fd_entry s oldfd of
        None \<Rightarrow> (- 1, s)
      | Some f \<Rightarrow>
          (case lowest_free (fdtab s) (fd_limit s) of
             None \<Rightarrow> (- 1, s)
           | Some n \<Rightarrow> (n, s\<lparr>fdtab := (fdtab s)(n \<mapsto> f)\<rparr>)))"

definition sys_dup2 :: "proc \<Rightarrow> int \<Rightarrow> int \<Rightarrow> int \<times> proc" where
  "sys_dup2 s oldfd newfd =
     (case fd_entry s oldfd of
        None \<Rightarrow> (- 1, s)
      | Some f \<Rightarrow>
          if newfd < 0 \<or> fd_limit s \<le> newfd then (- 1, s)
          else if oldfd = newfd then (newfd, s)
          else (newfd, s\<lparr>fdtab := (fdtab s)(newfd \<mapsto> f)\<rparr>))"

definition sys_close :: "proc \<Rightarrow> int \<Rightarrow> int \<times> proc" where
  "sys_close s fd =
     (case fd_entry s fd of
        None \<Rightarrow> (- 1, s)
      | Some f \<Rightarrow> (0, s\<lparr>fdtab := (fdtab s)(fd := None)\<rparr>))"

text \<open>
  \<^verbatim>\<open>fdopen(fd, "w")\<close> gives NULL on a descriptor that is not open and on one that
  is not open for writing, which here is the read end of a pipe; devices are
  writable destinations.
\<close>

fun writable :: "ofile \<Rightarrow> bool" where
  "writable (PipeRead p) = False"
| "writable f = True"

definition fdopen :: "proc \<Rightarrow> int \<Rightarrow> FILE option" where
  "fdopen s fd =
     (case fd_entry s fd of
        None \<Rightarrow> None
      | Some f \<Rightarrow> if writable f then Some (FILE fd) else None)"

definition fclose :: "proc \<Rightarrow> FILE \<Rightarrow> proc" where
  "fclose s f = snd (sys_close s (fileno f))"

definition pipe_has_writer :: "proc \<Rightarrow> nat \<Rightarrow> bool" where
  "pipe_has_writer s p = list_ex (\<lambda>i. fdtab s i = Some (PipeWrite p)) [0..fd_limit s - 1]"

definition pipe_has_reader :: "proc \<Rightarrow> nat \<Rightarrow> bool" where
  "pipe_has_reader s p = list_ex (\<lambda>i. fdtab s i = Some (PipeRead p)) [0..fd_limit s - 1]"

text \<open>The bytes a pipe holds before a writer has to wait (sixteen pages).\<close>

definition PIPE_CAPACITY :: nat where
  "PIPE_CAPACITY = 65536"

definition SSIZE_MAX :: nat where
  "SSIZE_MAX = 2 ^ 63 - 1"

text \<open>
  A read end is readable when bytes are queued or when no write end is left
  (end of file). Devices are output destinations here and never readable.
\<close>

definition fd_readable :: "proc \<Rightarrow> int \<Rightarrow> bool" where
  "fd_readable s fd =
     (case fd_entry s fd of
        Some (PipeRead p) \<Rightarrow> pipebuf s p \<noteq> [] \<or> \<not> pipe_has_writer s p
      | _ \<Rightarrow> False)"

text \<open>
  \<^verbatim>\<open>select\<close> on the one descriptor with a zero timeout: the result and whether
  the descriptor is still in the set afterwards. On an error the set is left as
  it was. A descriptor that is not open is the error case; the capacity of an
  \<^verbatim>\<open>fd_set\<close> is not modelled, descriptors are taken to fit.
\<close>

definition sys_select_read :: "proc \<Rightarrow> int \<Rightarrow> int \<times> bool" where
  "sys_select_read s fd =
     (if fd_entry s fd = None then (- 1, True)
      else if fd_readable s fd then (1, True)
      else (0, False))"

text \<open>
  \<^verbatim>\<open>read(fd, buffer, count)\<close> on a blocking descriptor. A count beyond
  \<^verbatim>\<open>SSIZE_MAX\<close> reaches past the address space and fails with -1. The bytes read
  replace the front of the buffer; a transfer longer than the buffer is a memory
  fault, and a read from an empty pipe that still has a writer does not return.
\<close>

definition sys_read :: "proc \<Rightarrow> int \<Rightarrow> byte list \<Rightarrow> nat \<Rightarrow> failure + (int \<times> byte list \<times> proc)" where
  "sys_read s fd buffer count =
     (case fd_entry s fd of
        Some (PipeRead p) \<Rightarrow>
          (let avail = pipebuf s p; got = take count avail in
           if SSIZE_MAX < count then Inr (- 1, buffer, s)
           else if avail = [] then
             (if pipe_has_writer s p \<and> 0 < count then Inl WouldBlock else Inr (0, buffer, s))
           else if length got \<le> length buffer then
             Inr (int (length got), got @ drop (length got) buffer,
                  s\<lparr>pipebuf := (pipebuf s)(p := drop count avail)\<rparr>)
           else Inl MemoryFault)
      | _ \<Rightarrow> Inr (- 1, buffer, s))"

text \<open>
  \<^verbatim>\<open>write(fd, bytes, length)\<close> on a blocking descriptor, as the host's output
  reaches it. A pipe without a read end raises \<^verbatim>\<open>SIGPIPE\<close>, which ends the
  process; a write that does not fit the pipe waits for a reader to make room,
  and in a sequence with no drain in between it does not return.
\<close>

definition sys_write :: "proc \<Rightarrow> int \<Rightarrow> byte list \<Rightarrow> failure + (int \<times> proc)" where
  "sys_write s fd bytes =
     (case fd_entry s fd of
        Some (PipeWrite p) \<Rightarrow>
          if \<not> pipe_has_reader s p then Inl BrokenPipe
          else if length (pipebuf s p) + length bytes \<le> PIPE_CAPACITY then
            Inr (int (length bytes), s\<lparr>pipebuf := (pipebuf s)(p := pipebuf s p @ bytes)\<rparr>)
          else Inl WouldBlock
      | Some (Device d) \<Rightarrow>
          Inr (int (length bytes), s\<lparr>devout := (devout s)(d := devout s d @ bytes)\<rparr>)
      | _ \<Rightarrow> Inr (- 1, s))"

subsection \<open>Integer conversions of the C code\<close>

definition INT_MIN :: int where
  "INT_MIN = - (2 ^ 31)"

definition INT_MAX :: int where
  "INT_MAX = 2 ^ 31 - 1"

definition size_t_of_int :: "int \<Rightarrow> nat" where
  "size_t_of_int i = nat (i mod 2 ^ 64)"

definition int_of_ssize :: "int \<Rightarrow> int" where
  "int_of_ssize n = (n + 2 ^ 31) mod 2 ^ 32 - 2 ^ 31"

section \<open>log\_capture.h\<close>

definition webkit_init_log_capture :: "proc \<Rightarrow> proc" where
  "webkit_init_log_capture s =
     (if webkit_capture_enabled s then s
      else
        (case sys_pipe s of (rc, s1) \<Rightarrow>
           if rc = 0 then
             (case sys_dup s1 1 of (d1, s2) \<Rightarrow>
                (let s3 = s2\<lparr>webkit_original_stdout := fdopen s2 d1\<rparr> in
                 (case sys_dup s3 2 of (d2, s4) \<Rightarrow>
                    (let s5 = s4\<lparr>webkit_original_stderr := fdopen s4 d2\<rparr>;
                         s6 = s5\<lparr>webkit_capture_enabled := True\<rparr>
                     in g_debug s6 ''WebKit log capture initialized''))))
           else g_warning s1 ''Failed to initialize WebKit log capture''))"

definition webkit_start_log_capture :: "proc \<Rightarrow> proc" where
  "webkit_start_log_capture s =
     (if \<not> webkit_capture_enabled s then s
      else
        (let s1 = snd (sys_dup2 s (snd (webkit_log_pipe s)) 1);
             s2 = snd (sys_dup2 s1 (snd (webkit_log_pipe s1)) 2)
         in s2))"

text \<open>
  \<^verbatim>\<open>webkit_stop_log_capture\<close> runs the same three lines for each saved stream: if
  the pointer is not NULL, \<^verbatim>\<open>dup2\<close> its descriptor onto the target and \<^verbatim>\<open>fclose\<close>
  it. \<open>restore_stream\<close> is that block.
\<close>

definition restore_stream :: "proc \<Rightarrow> FILE option \<Rightarrow> int \<Rightarrow> proc" where
  "restore_stream s fp target =
     (case fp of
        None \<Rightarrow> s
      | Some f \<Rightarrow> fclose (snd (sys_dup2 s (fileno f) target)) f)"

definition webkit_stop_log_capture :: "proc \<Rightarrow> proc" where
  "webkit_stop_log_capture s =
     (if \<not> webkit_capture_enabled s then s
      else
        (let s1 = restore_stream s (webkit_original_stdout s) 1;
             s2 = restore_stream s1 (webkit_original_stderr s1) 2;
             s3 = snd (sys_close s2 (fst (webkit_log_pipe s2)));
             s4 = snd (sys_close s3 (snd (webkit_log_pipe s3)))
         in s4\<lparr>webkit_capture_enabled := False\<rparr>))"

text \<open>
  The drain takes the caller's buffer (its real extent is the length of the list)
  and the capacity the caller passes. \<^verbatim>\<open>buffer_size - 1\<close> is computed in \<^verbatim>\<open>int\<close>,
  converted to \<^verbatim>\<open>size_t\<close> for \<^verbatim>\<open>read\<close>, and the result of \<^verbatim>\<open>read\<close> is stored in
  an \<^verbatim>\<open>int\<close>. The terminator is written at index \<open>n\<close>; outside the buffer that
  is a memory fault.
\<close>

definition webkit_read_captured_log ::
  "proc \<Rightarrow> byte list \<Rightarrow> int \<Rightarrow> failure + (int \<times> byte list \<times> proc)" where
  "webkit_read_captured_log s buffer buffer_size =
     (if \<not> webkit_capture_enabled s then Inr (0, buffer, s)
      else
        (case sys_select_read s (fst (webkit_log_pipe s)) of (result, isset) \<Rightarrow>
           if 0 < result \<and> isset then
             (if buffer_size - 1 < INT_MIN then Inl SignedOverflow
              else
                (case sys_read s (fst (webkit_log_pipe s)) buffer (size_t_of_int (buffer_size - 1)) of
                   Inl e \<Rightarrow> Inl e
                 | Inr (m, buffer', s') \<Rightarrow>
                     (let n = int_of_ssize m in
                      if 0 < n then
                        (if nat n < length buffer' then Inr (n, buffer'[nat n := 0], s')
                         else Inl MemoryFault)
                      else Inr (0, buffer', s'))))
           else Inr (0, buffer, s)))"

text \<open>A process as the loader leaves it: the statics zeroed, nothing reported yet.\<close>

definition process_start :: "(int \<Rightarrow> ofile option) \<Rightarrow> int \<Rightarrow> proc" where
  "process_start tab lim =
     \<lparr>fdtab = tab, fd_limit = lim, pipebuf = (\<lambda>p. []), npipes = 0, devout = (\<lambda>d. []),
      glog = [], webkit_log_pipe = (0, 0), webkit_original_stdout = None,
      webkit_original_stderr = None, webkit_capture_enabled = False\<rparr>"

text \<open>The usual table: descriptors 0, 1 and 2 on devices 0, 1 and 2.\<close>

definition std_tab :: "int \<Rightarrow> ofile option" where
  "std_tab fd = (if fd = 0 then Some (Device 0) else if fd = 1 then Some (Device 1)
                 else if fd = 2 then Some (Device 2) else None)"

subsection \<open>Calling sequences and observations of the capture state\<close>

text \<open>
  The host calls the four operations in some order. A drain that faults or never
  returns ends the sequence with that failure.
\<close>

datatype capture_op = Initialize | Start | Stop | Drain "byte list" int

fun exec :: "capture_op \<Rightarrow> proc \<Rightarrow> failure + proc" where
  "exec Initialize s = Inr (webkit_init_log_capture s)"
| "exec Start s = Inr (webkit_start_log_capture s)"
| "exec Stop s = Inr (webkit_stop_log_capture s)"
| "exec (Drain buffer buffer_size) s =
     (case webkit_read_captured_log s buffer buffer_size of
        Inl e \<Rightarrow> Inl e
      | Inr (n, buffer', s') \<Rightarrow> Inr s')"

fun run :: "capture_op list \<Rightarrow> proc \<Rightarrow> failure + proc" where
  "run [] s = Inr s"
| "run (c # cs) s = (case exec c s of Inl e \<Rightarrow> Inl e | Inr s' \<Rightarrow> run cs s')"

fun is_start_or_drain :: "capture_op \<Rightarrow> bool" where
  "is_start_or_drain Start = True"
| "is_start_or_drain (Drain buffer buffer_size) = True"
| "is_start_or_drain c = False"

fun is_start_or_stop :: "capture_op \<Rightarrow> bool" where
  "is_start_or_stop Start = True"
| "is_start_or_stop Stop = True"
| "is_start_or_stop c = False"

fun is_initialize :: "capture_op \<Rightarrow> bool" where
  "is_initialize Initialize = True"
| "is_initialize c = False"

text \<open>The bytes waiting in the channel that \<^verbatim>\<open>webkit_log_pipe[0]\<close> reads from.\<close>

definition channel_data :: "proc \<Rightarrow> byte list" where
  "channel_data s =
     (case fd_entry s (fst (webkit_log_pipe s)) of
        Some (PipeRead p) \<Rightarrow> pipebuf s p
      | _ \<Rightarrow> [])"

text \<open>The state with the first \<open>n\<close> bytes taken out of the channel.\<close>

definition consume :: "proc \<Rightarrow> nat \<Rightarrow> proc" where
  "consume s n =
     (case fd_entry s (fst (webkit_log_pipe s)) of
        Some (PipeRead p) \<Rightarrow> s\<lparr>pipebuf := (pipebuf s)(p := drop n (pipebuf s p))\<rparr>
      | _ \<Rightarrow> s)"





subsection \<open>The invariant of the redirection cycle\<close>

text \<open>
  Between a successful initialisation (\<open>s0\<close> before it, \<open>s1\<close> after it) and the
  next one, the limit and the pipe counter stay put; while the flag is set the
  statics are those of \<open>s1\<close> and the table differs from that of \<open>s1\<close> at most at
  descriptors 1 and 2; once the flag is unset the table is that of \<open>s0\<close> again.
\<close>

definition capture_inv :: "proc \<Rightarrow> proc \<Rightarrow> proc \<Rightarrow> bool" where
  "capture_inv s0 s1 s =
     (fd_limit s = fd_limit s1 \<and> npipes s = npipes s1 \<and>
      (if webkit_capture_enabled s then
         webkit_log_pipe s = webkit_log_pipe s1 \<and>
         webkit_original_stdout s = webkit_original_stdout s1 \<and>
         webkit_original_stderr s = webkit_original_stderr s1 \<and>
         (\<forall>k. k \<noteq> 1 \<longrightarrow> k \<noteq> 2 \<longrightarrow> fdtab s k = fdtab s1 k)
       else fdtab s = fdtab s0))"

subsection \<open>A concrete process\<close>

text \<open>
  A process with the usual three descriptors and room for sixteen, and the
  scenario of the specification: initialise, start, and the host writes the six
  bytes of \<^verbatim>\<open>hello\<close> and a newline to standard output.
\<close>

definition std_proc :: proc where
  "std_proc = process_start std_tab 16"

definition hello :: "byte list" where
  "hello = [104, 101, 108, 108, 111, 10]"


definition hello_pending :: proc where
  "hello_pending =
     (case sys_write (webkit_start_log_capture (webkit_init_log_capture std_proc)) 1 hello of
        Inl e \<Rightarrow> webkit_start_log_capture (webkit_init_log_capture std_proc)
      | Inr (n, u) \<Rightarrow> u)"

section \<open>The log multiplexer of log\_capture.h\<close>

text \<open>
  The logging facility keeps, per domain, the handlers installed for it; the NULL
  domain is kept under the empty name. A new handler is put in front, and a
  message goes to the first handler of its domain whose level mask covers the
  level of the message. The function pointers that can be installed are the
  component's own handler and handlers of other parties.
\<close>

datatype log_func = Webkit_glib_log_handler | Foreign_handler nat

record log_handler =
  lh_domain :: string
  lh_levels :: "32 word"
  lh_func :: log_func
  lh_data :: "nat option"

definition domain_key :: "string option \<Rightarrow> string" where
  "domain_key log_domain = (case log_domain of None \<Rightarrow> [] | Some d \<Rightarrow> d)"

definition g_log_set_handler ::
  "log_handler list \<Rightarrow> string option \<Rightarrow> 32 word \<Rightarrow> log_func \<Rightarrow> nat option \<Rightarrow> log_handler list" where
  "g_log_set_handler reg log_domain log_levels f user_data =
     \<lparr>lh_domain = domain_key log_domain, lh_levels = log_levels, lh_func = f,
      lh_data = user_data\<rparr> # reg"

definition g_log_find_handler ::
  "log_handler list \<Rightarrow> string option \<Rightarrow> 32 word \<Rightarrow> log_handler option" where
  "g_log_find_handler reg log_domain log_level =
     find (\<lambda>h. lh_domain h = domain_key log_domain \<and> lh_levels h AND log_level = log_level) reg"

text \<open>
  The handler forwards its three arguments to the callback of the host, the level
  cast from the enumeration to \<^verbatim>\<open>int\<close>. The callback is a parameter: a function
  of the domain, the level and the text on the state of the host.
\<close>

definition webkit_glib_log_handler ::
  "(string option \<Rightarrow> int \<Rightarrow> string \<Rightarrow> 'w \<Rightarrow> 'w) \<Rightarrow>
   string option \<Rightarrow> 32 word \<Rightarrow> string \<Rightarrow> nat option \<Rightarrow> 'w \<Rightarrow> 'w" where
  "webkit_glib_log_handler goWebKitLogHandler log_domain log_level message user_data w =
     goWebKitLogHandler log_domain (sint log_level) message w"

definition webkit_setup_glib_log_handlers :: "log_handler list \<Rightarrow> log_handler list" where
  "webkit_setup_glib_log_handlers reg =
     (let r1 = g_log_set_handler reg (Some ''WebKit'')
                 (G_LOG_LEVEL_MASK OR G_LOG_FLAG_FATAL OR G_LOG_FLAG_RECURSION)
                 Webkit_glib_log_handler None;
          r2 = g_log_set_handler r1 (Some ''Gtk'')
                 (G_LOG_LEVEL_MASK OR G_LOG_FLAG_FATAL OR G_LOG_FLAG_RECURSION)
                 Webkit_glib_log_handler None;
          r3 = g_log_set_handler r2 (Some ''GLib'')
                 (G_LOG_LEVEL_MASK OR G_LOG_FLAG_FATAL OR G_LOG_FLAG_RECURSION)
                 Webkit_glib_log_handler None;
          r4 = g_log_set_handler r3 None
                 (G_LOG_LEVEL_MASK OR G_LOG_FLAG_FATAL OR G_LOG_FLAG_RECURSION)
                 Webkit_glib_log_handler None
      in r4)"

text \<open>
  Where a message at one level ends up: with the component's handler, which runs
  on it, or with a handler this component does not own (a foreign one, or the
  default handler of the facility when none is installed), which does not call
  the callback of the host. \<open>g_log_deliver\<close> is the lookup and the call of the
  handler that the facility makes for a level it reports.
\<close>

datatype route = To_interception | To_foreign nat | To_default

definition g_log_route :: "log_handler list \<Rightarrow> string option \<Rightarrow> 32 word \<Rightarrow> route" where
  "g_log_route reg log_domain log_level =
     (case g_log_find_handler reg log_domain log_level of
        None \<Rightarrow> To_default
      | Some h \<Rightarrow> (case lh_func h of
                    Webkit_glib_log_handler \<Rightarrow> To_interception
                  | Foreign_handler k \<Rightarrow> To_foreign k))"

definition g_log_deliver ::
  "log_handler list \<Rightarrow> (string option \<Rightarrow> int \<Rightarrow> string \<Rightarrow> 'w \<Rightarrow> 'w) \<Rightarrow>
   string option \<Rightarrow> 32 word \<Rightarrow> string \<Rightarrow> 'w \<Rightarrow> 'w" where
  "g_log_deliver reg goWebKitLogHandler log_domain log_level message w =
     (case g_log_find_handler reg log_domain log_level of
        None \<Rightarrow> w
      | Some h \<Rightarrow> (case lh_func h of
                    Webkit_glib_log_handler \<Rightarrow>
                      webkit_glib_log_handler goWebKitLogHandler log_domain log_level message
                        (lh_data h) w
                  | Foreign_handler k \<Rightarrow> w))"

subsection \<open>The emission of a message\<close>

text \<open>
  \<^verbatim>\<open>g_logv\<close> of the logging library, as far as this component meets it. The two
  flags of the emitted level are remembered and the level is cut down to its
  level bits; with none left nothing happens. Then, from the highest level bit
  down, each bit that is set is reported on its own: the remembered flags are put
  back, a message logged from inside a handler (a positive depth) gets the
  recursion flag, and a level in the fatal mask of the domain or of the process
  gets the fatal flag. A level with the recursion flag goes to the library's
  fallback handler, any other to the handler found for it (\<open>g_log_deliver\<close>).
  After the handler has returned, a level with the fatal flag aborts the
  process. No test hook for fatal messages is installed.
\<close>

datatype 'w outcome = Returned 'w | Aborted 'w

definition G_LOG_FATAL_MASK :: "32 word" where
  "G_LOG_FATAL_MASK = G_LOG_FLAG_RECURSION OR G_LOG_LEVEL_ERROR"

fun g_logv_levels ::
  "log_handler list \<Rightarrow> (string option \<Rightarrow> int \<Rightarrow> string \<Rightarrow> 'w \<Rightarrow> 'w) \<Rightarrow> 32 word \<Rightarrow> nat \<Rightarrow>
   string option \<Rightarrow> bool \<Rightarrow> bool \<Rightarrow> 32 word \<Rightarrow> string \<Rightarrow> nat list \<Rightarrow> 'w \<Rightarrow> 'w outcome" where
  "g_logv_levels reg sink fatal_mask depth log_domain was_fatal was_recursion log_level message
     [] w = Returned w"
| "g_logv_levels reg sink fatal_mask depth log_domain was_fatal was_recursion log_level message
     (i # rest) w =
     (if bit log_level i then
        (let t0 = push_bit i 1;
             t1 = (if was_fatal then t0 OR G_LOG_FLAG_FATAL else t0);
             t2 = (if was_recursion then t1 OR G_LOG_FLAG_RECURSION else t1);
             t3 = (if 0 < depth then t2 OR G_LOG_FLAG_RECURSION else t2);
             test_level = (if fatal_mask AND t3 \<noteq> 0 then t3 OR G_LOG_FLAG_FATAL else t3);
             w' = (if test_level AND G_LOG_FLAG_RECURSION \<noteq> 0 then w
                   else g_log_deliver reg sink log_domain test_level message w)
         in if test_level AND G_LOG_FLAG_FATAL \<noteq> 0 then Aborted w'
            else g_logv_levels reg sink fatal_mask depth log_domain was_fatal was_recursion
                   log_level message rest w')
      else g_logv_levels reg sink fatal_mask depth log_domain was_fatal was_recursion
             log_level message rest w)"

definition g_logv ::
  "log_handler list \<Rightarrow> (string option \<Rightarrow> int \<Rightarrow> string \<Rightarrow> 'w \<Rightarrow> 'w) \<Rightarrow> 32 word \<Rightarrow> nat \<Rightarrow>
   string option \<Rightarrow> 32 word \<Rightarrow> string \<Rightarrow> 'w \<Rightarrow> 'w outcome" where
  "g_logv reg sink fatal_mask depth log_domain log_level message w =
     (if log_level AND G_LOG_LEVEL_MASK = 0 then Returned w
      else g_logv_levels reg sink fatal_mask depth log_domain
             (log_level AND G_LOG_FLAG_FATAL \<noteq> 0) (log_level AND G_LOG_FLAG_RECURSION \<noteq> 0)
             (log_level AND G_LOG_LEVEL_MASK) message (rev [0..<32]) w)"

text \<open>A callback that only records the calls it receives, in order.\<close>

definition recording_sink ::
  "string option \<Rightarrow> int \<Rightarrow> string \<Rightarrow> (string option \<times> int \<times> string) list \<Rightarrow>
   (string option \<times> int \<times> string) list" where
  "recording_sink log_domain level message calls = calls @ [(log_domain, level, message)]"

definition recognized_domains :: "string option list" where
  "recognized_domains = [Some ''WebKit'', Some ''Gtk'', Some ''GLib'', None]"

section \<open>thread\_helpers.c\<close>

text \<open>
  A thread is identified by its \<^verbatim>\<open>pthread_t\<close>; \<^verbatim>\<open>pthread_self()\<close> is the identity
  of the calling thread, passed as \<open>self\<close>. \<^verbatim>\<open>pthread_equal\<close> is nonzero on equal
  identities and zero otherwise.
\<close>

type_synonym pthread_t = nat

record thread_statics =
  main_thread_id :: pthread_t

definition pthread_equal :: "pthread_t \<Rightarrow> pthread_t \<Rightarrow> int" where
  "pthread_equal t1 t2 = (if t1 = t2 then 1 else 0)"

definition store_main_thread_id :: "pthread_t \<Rightarrow> thread_statics \<Rightarrow> thread_statics" where
  "store_main_thread_id self g = g\<lparr>main_thread_id := self\<rparr>"

definition is_main_thread :: "pthread_t \<Rightarrow> thread_statics \<Rightarrow> int" where
  "is_main_thread self g = pthread_equal self (main_thread_id g)"

section \<open>The URI scheme callback of webview\_callbacks.h\<close>

text \<open>
  The resolver of the host returns a buffer pointer and fills two out parameters,
  which the callback initialises to 0 and NULL; it is a parameter here, given the
  URI of the request and the two initial values. The callback's calls into the
  toolkit are recorded in order; two of them complete the request. The length is
  a \<^verbatim>\<open>size_t\<close>, cast to \<^verbatim>\<open>gssize\<close> for the stream and to \<^verbatim>\<open>gint64\<close> for the
  completion.
\<close>

datatype scheme_call =
    New_memory_stream nat int
  | Request_finish nat int int string
  | Unref_stream
  | Free_mime
  | New_error string int string
  | Request_finish_error string int string
  | Free_error

fun completes_request :: "scheme_call \<Rightarrow> bool" where
  "completes_request (Request_finish buf stream_len len mime) = True"
| "completes_request (Request_finish_error quark code text) = True"
| "completes_request c = False"

definition on_uri_scheme ::
  "(string \<Rightarrow> 64 word \<Rightarrow> string option \<Rightarrow> nat option \<times> 64 word \<times> string option) \<Rightarrow>
   string \<Rightarrow> scheme_call list" where
  "on_uri_scheme goResolveURIScheme uri =
     (case goResolveURIScheme uri 0 None of (buf, n, mime) \<Rightarrow>
        if buf \<noteq> None \<and> 0 < n \<and> mime \<noteq> None then
          [New_memory_stream (the buf) (sint n),
           Request_finish (the buf) (sint n) (sint n) (the mime),
           Unref_stream,
           Free_mime]
        else
          [New_error ''dumber'' 404 ''Not found'',
           Request_finish_error ''dumber'' 404 ''Not found'',
           Free_error])"

section \<open>Properties of the capture state\<close>

lemma init_when_enabled: "webkit_capture_enabled s \<Longrightarrow> webkit_init_log_capture s = s"
  by (simp add: webkit_init_log_capture_def)

lemma start_when_disabled: "\<not> webkit_capture_enabled s \<Longrightarrow> webkit_start_log_capture s = s"
  by (simp add: webkit_start_log_capture_def)

lemma stop_when_disabled: "\<not> webkit_capture_enabled s \<Longrightarrow> webkit_stop_log_capture s = s"
  by (simp add: webkit_stop_log_capture_def)

lemma drain_when_disabled:
  "\<not> webkit_capture_enabled s \<Longrightarrow> webkit_read_captured_log s buffer n = Inr (0, buffer, s)"
  by (simp add: webkit_read_captured_log_def)

lemma stop_disables: "\<not> webkit_capture_enabled (webkit_stop_log_capture s)"
  by (simp add: webkit_stop_log_capture_def Let_def)

lemma sys_pipe_fail_same: "fst (sys_pipe s) \<noteq> 0 \<Longrightarrow> snd (sys_pipe s) = s"
  by (auto simp: sys_pipe_def split: option.splits)

lemma init_pipe_failure:
  "\<not> webkit_capture_enabled s \<Longrightarrow> fst (sys_pipe s) \<noteq> 0 \<Longrightarrow>
   webkit_init_log_capture s = g_warning s ''Failed to initialize WebKit log capture''"
  using sys_pipe_fail_same [of s]
  by (cases "sys_pipe s") (simp add: webkit_init_log_capture_def)

lemma enabled_sys_dup [simp]: "webkit_capture_enabled (snd (sys_dup s fd)) = webkit_capture_enabled s"
  by (simp add: sys_dup_def split: option.splits)

lemma enabled_sys_dup2 [simp]: "webkit_capture_enabled (snd (sys_dup2 s a b)) = webkit_capture_enabled s"
  by (simp add: sys_dup2_def split: option.splits)

lemma enabled_g_debug [simp]: "webkit_capture_enabled (g_debug s m) = webkit_capture_enabled s"
  by (simp add: g_debug_def)

lemma enabled_g_warning [simp]: "webkit_capture_enabled (g_warning s m) = webkit_capture_enabled s"
  by (simp add: g_warning_def)

lemma init_pipe_success:
  "\<not> webkit_capture_enabled s \<Longrightarrow> fst (sys_pipe s) = 0 \<Longrightarrow>
   webkit_capture_enabled (webkit_init_log_capture s)"
  by (cases "sys_pipe s") (simp add: webkit_init_log_capture_def Let_def split: prod.splits)

lemma init_enabled_iff:
  "\<not> webkit_capture_enabled s \<Longrightarrow>
   webkit_capture_enabled (webkit_init_log_capture s) = (fst (sys_pipe s) = 0)"
proof (cases "fst (sys_pipe s) = 0")
  case True
  assume "\<not> webkit_capture_enabled s"
  with True show ?thesis by (simp add: init_pipe_success)
next
  case False
  assume "\<not> webkit_capture_enabled s"
  with False show ?thesis by (simp add: init_pipe_failure)
qed

lemma start_keeps_enabled:
  "webkit_capture_enabled (webkit_start_log_capture s) = webkit_capture_enabled s"
  by (simp add: webkit_start_log_capture_def Let_def)

lemma enabled_sys_read:
  "sys_read s fd b c = Inr (m, b', s') \<Longrightarrow> webkit_capture_enabled s' = webkit_capture_enabled s"
  by (auto simp: sys_read_def Let_def split: option.splits ofile.splits if_splits)

lemma drain_keeps_enabled:
  "webkit_read_captured_log s buffer n = Inr (k, buffer', s') \<Longrightarrow>
   webkit_capture_enabled s' = webkit_capture_enabled s"
  by (auto simp: webkit_read_captured_log_def Let_def dest: enabled_sys_read
      split: if_splits prod.splits sum.splits)

lemma run_start_drain_keeps_enabled:
  "list_all is_start_or_drain cs \<Longrightarrow> run cs s = Inr s' \<Longrightarrow>
   webkit_capture_enabled s' = webkit_capture_enabled s"
proof (induction cs arbitrary: s)
  case Nil
  then show ?case by simp
next
  case (Cons c cs)
  then show ?case
    by (cases c) (auto simp: start_keeps_enabled dest: drain_keeps_enabled split: sum.splits)
qed

lemma exec_when_disabled:
  "\<not> webkit_capture_enabled s \<Longrightarrow> \<not> is_initialize c \<Longrightarrow> exec c s = Inr s"
  by (cases c) (simp_all add: start_when_disabled stop_when_disabled drain_when_disabled)

lemma run_when_disabled:
  "\<not> webkit_capture_enabled s \<Longrightarrow> list_all (\<lambda>c. \<not> is_initialize c) cs \<Longrightarrow> run cs s = Inr s"
  by (induction cs) (simp_all add: exec_when_disabled)


lemma sys_pipe_fails_std_3: "fst (sys_pipe (process_start std_tab 3)) = - 1"
  by (simp add: sys_pipe_def process_start_def lowest_free_def std_tab_def upto.simps)

lemma start_disabled: "\<not> webkit_capture_enabled (process_start tab lim)"
  by (simp add: process_start_def)

lemma init_std_16_enabled:
  "webkit_capture_enabled (webkit_init_log_capture (process_start std_tab 16))"
  by (simp add: webkit_init_log_capture_def process_start_def sys_pipe_def lowest_free_def
      std_tab_def upto.simps sys_dup_def fd_entry_def fdopen_def g_debug_def Let_def
      split: prod.splits)

lemma warning_not_fatal:
  "G_LOG_LEVEL_WARNING AND G_LOG_FLAG_FATAL = 0 \<and> G_LOG_LEVEL_WARNING \<noteq> G_LOG_LEVEL_ERROR"
  by (simp add: G_LOG_LEVEL_WARNING_def G_LOG_FLAG_FATAL_def G_LOG_LEVEL_ERROR_def)

text \<open>
  Claim C6. In every state in which capture is not enabled, \<^verbatim>\<open>start\<close> and \<^verbatim>\<open>stop\<close>
  return the state unchanged and the drain returns 0 with the buffer and the state
  untouched; none of the three fails. Capture is not enabled at process start,
  after an initialisation whose pipe creation failed, and after any \<^verbatim>\<open>stop\<close>.
\<close>

theorem disabled_capture_ops_are_noops:
  "(\<not> webkit_capture_enabled s \<longrightarrow>
      webkit_start_log_capture s = s \<and> webkit_stop_log_capture s = s \<and>
      webkit_read_captured_log s buffer buffer_size = Inr (0, buffer, s)) \<and>
   \<not> webkit_capture_enabled (process_start tab lim) \<and>
   (\<not> webkit_capture_enabled s \<and> fst (sys_pipe s) \<noteq> 0 \<longrightarrow>
      \<not> webkit_capture_enabled (webkit_init_log_capture s)) \<and>
   \<not> webkit_capture_enabled (webkit_stop_log_capture s')"
  by (simp add: start_when_disabled stop_when_disabled drain_when_disabled start_disabled
      init_pipe_failure stop_disables)

theorem disabled_capture_ops_are_noops_witness:
  "\<not> webkit_capture_enabled (process_start std_tab 3) \<and>
   fst (sys_pipe (process_start std_tab 3)) \<noteq> 0 \<and>
   webkit_start_log_capture (process_start std_tab 3) = process_start std_tab 3 \<and>
   webkit_stop_log_capture (process_start std_tab 3) = process_start std_tab 3 \<and>
   webkit_read_captured_log (process_start std_tab 3) [1, 2] 2 =
     Inr (0, [1, 2], process_start std_tab 3) \<and>
   \<not> webkit_capture_enabled (webkit_init_log_capture (process_start std_tab 3))"
  using disabled_capture_ops_are_noops [of "process_start std_tab 3" "[1, 2]" 2]
  by (simp add: sys_pipe_fails_std_3 start_disabled)

text \<open>
  Claim C7. Initialisation is idempotent: called while the flag is set it changes
  nothing, so the state after two consecutive successful initialisations is the
  state after one (channel, saved handles, flag and everything else).
\<close>

theorem init_idempotent:
  "(webkit_capture_enabled s \<longrightarrow> webkit_init_log_capture s = s) \<and>
   (webkit_capture_enabled (webkit_init_log_capture s) \<longrightarrow>
      webkit_init_log_capture (webkit_init_log_capture s) = webkit_init_log_capture s)"
  by (simp add: init_when_enabled)

theorem init_idempotent_witness:
  "webkit_capture_enabled (webkit_init_log_capture (process_start std_tab 16)) \<and>
   webkit_init_log_capture (webkit_init_log_capture (process_start std_tab 16)) =
     webkit_init_log_capture (process_start std_tab 16)"
  using init_idempotent [of "process_start std_tab 16"]
  by (simp add: init_std_16_enabled)

text \<open>
  Claim C8. When pipe creation fails, initialisation leaves the flag unset, leaves
  the saved handles and the descriptor table as they were, and reports one message
  at warning level, which is neither the error level nor flagged fatal. Every
  later \<^verbatim>\<open>start\<close>, \<^verbatim>\<open>stop\<close> and drain, alone or in any sequence, returns without
  failure and without changing the state.
\<close>

theorem init_pipe_failure_degrades:
  assumes "\<not> webkit_capture_enabled s" and "fst (sys_pipe s) \<noteq> 0"
  shows "webkit_init_log_capture s =
           s\<lparr>glog := glog s @ [(G_LOG_LEVEL_WARNING, ''Failed to initialize WebKit log capture'')]\<rparr> \<and>
         \<not> webkit_capture_enabled (webkit_init_log_capture s) \<and>
         webkit_original_stdout (webkit_init_log_capture s) = webkit_original_stdout s \<and>
         webkit_original_stderr (webkit_init_log_capture s) = webkit_original_stderr s \<and>
         fdtab (webkit_init_log_capture s) = fdtab s \<and>
         G_LOG_LEVEL_WARNING AND G_LOG_FLAG_FATAL = 0 \<and>
         G_LOG_LEVEL_WARNING \<noteq> G_LOG_LEVEL_ERROR \<and>
         webkit_start_log_capture (webkit_init_log_capture s) = webkit_init_log_capture s \<and>
         webkit_stop_log_capture (webkit_init_log_capture s) = webkit_init_log_capture s \<and>
         webkit_read_captured_log (webkit_init_log_capture s) buffer buffer_size =
           Inr (0, buffer, webkit_init_log_capture s) \<and>
         (list_all (\<lambda>c. \<not> is_initialize c) cs \<longrightarrow>
            run cs (webkit_init_log_capture s) = Inr (webkit_init_log_capture s))"
proof -
  have eq: "webkit_init_log_capture s = g_warning s ''Failed to initialize WebKit log capture''"
    using assms by (rule init_pipe_failure)
  have dis: "\<not> webkit_capture_enabled (webkit_init_log_capture s)"
    using assms(1) by (simp add: eq)
  show ?thesis
    using dis warning_not_fatal
    by (simp add: start_when_disabled stop_when_disabled drain_when_disabled run_when_disabled)
      (simp add: eq g_warning_def)
qed

theorem init_pipe_failure_degrades_witness:
  "\<not> webkit_capture_enabled (process_start std_tab 3) \<and>
   fst (sys_pipe (process_start std_tab 3)) \<noteq> 0 \<and>
   \<not> webkit_capture_enabled (webkit_init_log_capture (process_start std_tab 3)) \<and>
   glog (webkit_init_log_capture (process_start std_tab 3)) =
     [(G_LOG_LEVEL_WARNING, ''Failed to initialize WebKit log capture'')] \<and>
   webkit_original_stdout (webkit_init_log_capture (process_start std_tab 3)) = None \<and>
   run [Start, Drain [0, 0] 2, Stop] (webkit_init_log_capture (process_start std_tab 3)) =
     Inr (webkit_init_log_capture (process_start std_tab 3))"
proof -
  have h1: "\<not> webkit_capture_enabled (process_start std_tab 3)"
    by (rule start_disabled)
  have h2: "fst (sys_pipe (process_start std_tab 3)) \<noteq> 0"
    by (simp add: sys_pipe_fails_std_3)
  have h3: "list_all (\<lambda>c. \<not> is_initialize c) [Start, Drain [0, 0] 2, Stop]"
    by simp
  note T = init_pipe_failure_degrades [OF h1 h2, of "[0, 0]" 2 "[Start, Drain [0, 0] 2, Stop]"]
  have a: "\<not> webkit_capture_enabled (webkit_init_log_capture (process_start std_tab 3))"
    using T by blast
  have b: "glog (webkit_init_log_capture (process_start std_tab 3)) =
      [(G_LOG_LEVEL_WARNING, ''Failed to initialize WebKit log capture'')]"
    using T by (simp add: process_start_def)
  have c: "webkit_original_stdout (webkit_init_log_capture (process_start std_tab 3)) = None"
    using T by (simp add: process_start_def)
  have d: "run [Start, Drain [0, 0] 2, Stop] (webkit_init_log_capture (process_start std_tab 3)) =
      Inr (webkit_init_log_capture (process_start std_tab 3))"
    using T h3 by blast
  show ?thesis using h1 h2 a b c d by blast
qed

section \<open>The drain and the redirection cycle\<close>

lemma size_t_of_int_nonneg: "0 \<le> i \<Longrightarrow> i \<le> INT_MAX \<Longrightarrow> size_t_of_int i = nat i"
  by (simp add: size_t_of_int_def INT_MAX_def)

lemma int_of_ssize_small: "0 \<le> m \<Longrightarrow> m \<le> INT_MAX \<Longrightarrow> int_of_ssize m = m"
  by (simp add: int_of_ssize_def INT_MAX_def)

lemma terminate_after_prefix:
  assumes "length got < length buffer"
  shows "(got @ drop (length got) buffer)[length got := z] = got @ z # drop (Suc (length got)) buffer"
proof -
  have "drop (length got) buffer = buffer ! length got # drop (Suc (length got)) buffer"
    using assms by (simp add: Cons_nth_drop_Suc)
  then show ?thesis by (simp add: list_update_append)
qed

lemma drain_not_selected:
  assumes "webkit_capture_enabled s" and "\<not> fd_readable s (fst (webkit_log_pipe s))"
  shows "webkit_read_captured_log s buffer buffer_size = Inr (0, buffer, s)"
  using assms by (simp add: webkit_read_captured_log_def sys_select_read_def)

lemma drain_end_of_file:
  assumes "webkit_capture_enabled s"
    and "fd_entry s (fst (webkit_log_pipe s)) = Some (PipeRead p)"
    and "pipebuf s p = []" and "\<not> pipe_has_writer s p"
    and "INT_MIN < buffer_size"
  shows "webkit_read_captured_log s buffer buffer_size = Inr (0, buffer, s)"
  using assms
  by (simp add: webkit_read_captured_log_def sys_select_read_def fd_readable_def sys_read_def
      int_of_ssize_def)

lemma drain_empty_channel:
  assumes "webkit_capture_enabled s" and "channel_data s = []" and "INT_MIN < buffer_size"
  shows "webkit_read_captured_log s buffer buffer_size = Inr (0, buffer, s)"
proof (cases "fd_readable s (fst (webkit_log_pipe s))")
  case False
  with assms(1) show ?thesis by (rule drain_not_selected)
next
  case True
  then obtain p where p: "fd_entry s (fst (webkit_log_pipe s)) = Some (PipeRead p)"
    and r: "pipebuf s p \<noteq> [] \<or> \<not> pipe_has_writer s p"
    by (auto simp: fd_readable_def split: option.splits ofile.splits)
  from p assms(2) have e: "pipebuf s p = []" by (simp add: channel_data_def)
  with r have "\<not> pipe_has_writer s p" by simp
  with assms(1) p e show ?thesis using assms(3) by (rule drain_end_of_file)
qed

lemma drain_capacity_one:
  assumes "webkit_capture_enabled s"
  shows "webkit_read_captured_log s buffer 1 = Inr (0, buffer, s)"
proof (cases "channel_data s = []")
  case True
  with assms show ?thesis by (intro drain_empty_channel) (auto simp: INT_MIN_def)
next
  case False
  then obtain p where p: "fd_entry s (fst (webkit_log_pipe s)) = Some (PipeRead p)"
    and d: "pipebuf s p \<noteq> []"
    by (auto simp: channel_data_def split: option.splits ofile.splits)
  show ?thesis using assms p d
    by (simp add: webkit_read_captured_log_def sys_select_read_def fd_readable_def sys_read_def
      int_of_ssize_def INT_MIN_def size_t_of_int_def)
qed

lemma drain_data_ready:
  assumes en: "webkit_capture_enabled s"
    and cap: "2 \<le> cap" "cap \<le> INT_MAX" "nat cap \<le> length buffer"
    and data: "channel_data s \<noteq> []"
  shows "webkit_read_captured_log s buffer cap =
     Inr (int (min (nat (cap - 1)) (length (channel_data s))),
          take (nat (cap - 1)) (channel_data s) @
            0 # drop (Suc (min (nat (cap - 1)) (length (channel_data s)))) buffer,
          consume s (nat (cap - 1)))"
proof -
  from data obtain p where p: "fd_entry s (fst (webkit_log_pipe s)) = Some (PipeRead p)"
    and d: "pipebuf s p \<noteq> []"
    by (auto simp: channel_data_def split: option.splits ofile.splits)
  have cd: "channel_data s = pipebuf s p" using p by (simp add: channel_data_def)
  define k where "k = nat (cap - 1)"
  define got where "got = take k (pipebuf s p)"
  have k: "0 < k" "k < length buffer" "int k \<le> INT_MAX"
    using cap by (simp_all add: k_def)
  have cnt: "size_t_of_int (cap - 1) = k"
    using cap by (simp add: size_t_of_int_nonneg k_def)
  have len: "length got = min k (length (pipebuf s p))" by (simp add: got_def)
  have lt: "length got < length buffer" using k by (simp add: len)
  have pos: "0 < length got" using d k by (cases "pipebuf s p") (auto simp: len)
  have small: "int (length got) \<le> INT_MAX" using k by (simp add: len)
  have sel: "sys_select_read s (fst (webkit_log_pipe s)) = (1, True)"
    using p d by (simp add: sys_select_read_def fd_readable_def)
  have ks: "\<not> SSIZE_MAX < k" using k(3) by (simp add: SSIZE_MAX_def INT_MAX_def)
  have rd: "sys_read s (fst (webkit_log_pipe s)) buffer k =
      Inr (int (length got), got @ drop (length got) buffer, consume s k)"
    using p d lt ks by (simp add: sys_read_def consume_def Let_def got_def del: length_take)
  have ovf: "\<not> cap - 1 < INT_MIN" using cap by (simp add: INT_MIN_def)
  have conv: "int_of_ssize (int (length got)) = int (length got)"
    using small by (simp add: int_of_ssize_small)
  have "webkit_read_captured_log s buffer cap =
      Inr (int (length got), (got @ drop (length got) buffer)[length got := 0], consume s k)"
    using en ovf pos lt
    by (simp add: webkit_read_captured_log_def sel cnt rd conv Let_def)
  also have "(got @ drop (length got) buffer)[length got := 0] =
      got @ 0 # drop (Suc (length got)) buffer"
    using lt by (rule terminate_after_prefix)
  finally show ?thesis by (simp add: cd len) (simp add: got_def k_def)
qed

text \<open>The drain reads only what \<^verbatim>\<open>select\<close> announced, so it always returns.\<close>

lemma read_after_select:
  assumes "fd_readable s fd"
  shows "sys_read s fd buffer count \<noteq> Inl WouldBlock"
  using assms
  by (auto simp: fd_readable_def sys_read_def Let_def split: option.splits ofile.splits)

lemma drain_never_blocks:
  "webkit_read_captured_log s buffer buffer_size \<noteq> Inl WouldBlock"
proof (cases "webkit_capture_enabled s \<and> fd_readable s (fst (webkit_log_pipe s))")
  case False
  then show ?thesis
    by (auto simp: webkit_read_captured_log_def sys_select_read_def)
next
  case True
  then have "sys_read s (fst (webkit_log_pipe s)) buffer (size_t_of_int (buffer_size - 1)) \<noteq>
      Inl WouldBlock"
    by (simp add: read_after_select)
  then show ?thesis
    by (auto simp: webkit_read_captured_log_def sys_select_read_def Let_def
        split: sum.splits prod.splits)
qed

lemma init_std_proc:
  "webkit_init_log_capture std_proc =
     \<lparr>fdtab = std_tab(3 \<mapsto> PipeRead 0, 4 \<mapsto> PipeWrite 0, 5 \<mapsto> Device 1, 6 \<mapsto> Device 2),
      fd_limit = 16, pipebuf = (\<lambda>p. []), npipes = 1, devout = (\<lambda>d. []),
      glog = [(G_LOG_LEVEL_DEBUG, ''WebKit log capture initialized'')],
      webkit_log_pipe = (3, 4), webkit_original_stdout = Some (FILE 5),
      webkit_original_stderr = Some (FILE 6), webkit_capture_enabled = True\<rparr>"
  by (simp add: std_proc_def webkit_init_log_capture_def process_start_def sys_pipe_def
      lowest_free_def upto.simps sys_dup_def fd_entry_def fdopen_def g_debug_def Let_def std_tab_def)
    (simp add: fun_eq_iff)


lemma lowest_free_SomeD:
  "lowest_free tab lim = Some i \<Longrightarrow> tab i = None \<and> 0 \<le> i \<and> i < lim"
  by (auto simp: lowest_free_def find_Some_iff)

lemma lowest_free_cong:
  "(\<And>i. (tab i = None) = (tab' i = None)) \<Longrightarrow> lowest_free tab lim = lowest_free tab' lim"
  by (simp add: lowest_free_def)

lemma init_unfold:
  assumes dis: "\<not> webkit_capture_enabled t"
    and r: "lowest_free (fdtab t) (fd_limit t) = Some r"
    and w: "lowest_free ((fdtab t)(r \<mapsto> PipeRead (npipes t))) (fd_limit t) = Some w"
    and d1: "lowest_free ((fdtab t)(r \<mapsto> PipeRead (npipes t), w \<mapsto> PipeWrite (npipes t)))
               (fd_limit t) = Some d1"
    and d2: "lowest_free ((fdtab t)(r \<mapsto> PipeRead (npipes t), w \<mapsto> PipeWrite (npipes t),
               d1 \<mapsto> o1)) (fd_limit t) = Some d2"
    and o1: "fd_entry t 1 = Some o1" and o2: "fd_entry t 2 = Some o2"
    and wr: "writable o1" "writable o2"
  shows "webkit_init_log_capture t =
     t\<lparr>fdtab := (fdtab t)(r \<mapsto> PipeRead (npipes t), w \<mapsto> PipeWrite (npipes t),
                           d1 \<mapsto> o1, d2 \<mapsto> o2),
        pipebuf := (pipebuf t)(npipes t := []),
        npipes := Suc (npipes t),
        glog := glog t @ [(G_LOG_LEVEL_DEBUG, ''WebKit log capture initialized'')],
        webkit_log_pipe := (r, w),
        webkit_original_stdout := Some (FILE d1),
        webkit_original_stderr := Some (FILE d2),
        webkit_capture_enabled := True\<rparr>"
proof -
  from lowest_free_SomeD [OF r] have fr: "fdtab t r = None" "0 \<le> r" "r < fd_limit t" by auto
  from lowest_free_SomeD [OF w] have fw: "fdtab t w = None" "w \<noteq> r" "0 \<le> w" "w < fd_limit t"
    by (auto split: if_splits)
  from lowest_free_SomeD [OF d1] have fd1: "fdtab t d1 = None" "d1 \<noteq> r" "d1 \<noteq> w"
      "0 \<le> d1" "d1 < fd_limit t"
    by (auto split: if_splits)
  from lowest_free_SomeD [OF d2] have fd2: "fdtab t d2 = None" "d2 \<noteq> r" "d2 \<noteq> w" "d2 \<noteq> d1"
      "0 \<le> d2" "d2 < fd_limit t"
    by (auto split: if_splits)
  from o1 have t1: "fdtab t 1 = Some o1" "1 < fd_limit t" by (auto simp: fd_entry_def split: if_splits)
  from o2 have t2: "fdtab t 2 = Some o2" "2 < fd_limit t" by (auto simp: fd_entry_def split: if_splits)
  have ne: "r \<noteq> 1" "r \<noteq> 2" "w \<noteq> 1" "w \<noteq> 2" "d1 \<noteq> 1" "d1 \<noteq> 2" "d2 \<noteq> 1" "d2 \<noteq> 2"
    using fr fw fd1 fd2 t1 t2 by auto
  have pipe: "sys_pipe t = (0, t\<lparr>fdtab := (fdtab t)(r \<mapsto> PipeRead (npipes t), w \<mapsto> PipeWrite (npipes t)),
                      pipebuf := (pipebuf t)(npipes t := []),
                      npipes := Suc (npipes t),
                      webkit_log_pipe := (r, w)\<rparr>)"
    by (simp add: sys_pipe_def r w)
  show ?thesis
    using dis ne fr fw fd1 fd2 t1 t2 wr
    by (simp add: webkit_init_log_capture_def pipe sys_dup_def fd_entry_def d1 d2 fdopen_def
        g_debug_def Let_def)
qed


lemma fd_entry_fdtab_update [simp]:
  "fd_entry (s\<lparr>fdtab := t\<rparr>) k = (if 0 \<le> k \<and> k < fd_limit s then t k else None)"
  by (simp add: fd_entry_def)

lemma fd_entry_enabled_update [simp]:
  "fd_entry (s\<lparr>webkit_capture_enabled := b\<rparr>) k = fd_entry s k"
  by (simp add: fd_entry_def)

lemma fd_entry_in_range: "fd_entry s k = Some f \<Longrightarrow> 0 \<le> k \<and> k < fd_limit s \<and> fdtab s k = Some f"
  by (auto simp: fd_entry_def split: if_splits)

lemma dup2_open:
  "fd_entry s a = Some f \<Longrightarrow> 0 \<le> b \<Longrightarrow> b < fd_limit s \<Longrightarrow> a \<noteq> b \<Longrightarrow>
   snd (sys_dup2 s a b) = s\<lparr>fdtab := (fdtab s)(b \<mapsto> f)\<rparr>"
  by (simp add: sys_dup2_def)

lemma close_open:
  "fd_entry s a = Some f \<Longrightarrow> snd (sys_close s a) = s\<lparr>fdtab := (fdtab s)(a := None)\<rparr>"
  by (simp add: sys_close_def)

lemma restore_stream_open:
  assumes "fd_entry s d = Some f" and "0 \<le> b" and "b < fd_limit s" and "d \<noteq> b"
  shows "restore_stream s (Some (FILE d)) b = s\<lparr>fdtab := (fdtab s)(b \<mapsto> f, d := None)\<rparr>"
proof -
  have d: "0 \<le> d" "d < fd_limit s" using assms(1) by (auto dest: fd_entry_in_range)
  have "snd (sys_dup2 s d b) = s\<lparr>fdtab := (fdtab s)(b \<mapsto> f)\<rparr>"
    using assms by (rule dup2_open)
  moreover have "fd_entry (s\<lparr>fdtab := (fdtab s)(b \<mapsto> f)\<rparr>) d = Some f"
    using assms d by (simp add: fd_entry_def)
  ultimately show ?thesis
    by (simp add: restore_stream_def fclose_def close_open)
qed

lemma start_active:
  assumes "webkit_capture_enabled s" and "webkit_log_pipe s = (r, w)"
    and "fd_entry s w = Some f" and "2 < fd_limit s" and "w \<noteq> 1" and "w \<noteq> 2"
  shows "webkit_start_log_capture s = s\<lparr>fdtab := (fdtab s)(1 \<mapsto> f, 2 \<mapsto> f)\<rparr>"
proof -
  have w: "0 \<le> w" "w < fd_limit s" using assms(3) by (auto dest: fd_entry_in_range)
  have a: "snd (sys_dup2 s w 1) = s\<lparr>fdtab := (fdtab s)(1 \<mapsto> f)\<rparr>"
    using assms by (intro dup2_open) auto
  have "fd_entry (s\<lparr>fdtab := (fdtab s)(1 \<mapsto> f)\<rparr>) w = Some f"
    using assms w by (simp add: fd_entry_def)
  then have b: "snd (sys_dup2 (s\<lparr>fdtab := (fdtab s)(1 \<mapsto> f)\<rparr>) w 2) =
      s\<lparr>fdtab := (fdtab s)(1 \<mapsto> f, 2 \<mapsto> f)\<rparr>"
    using assms by (subst dup2_open [where f = f]) auto
  show ?thesis
    using assms(1,2) by (simp add: webkit_start_log_capture_def Let_def a b)
qed

lemma stop_active:
  assumes en: "webkit_capture_enabled s" and lp: "webkit_log_pipe s = (r, w)"
    and so: "webkit_original_stdout s = Some (FILE d1)"
    and se: "webkit_original_stderr s = Some (FILE d2)"
    and e1: "fd_entry s d1 = Some o1" and e2: "fd_entry s d2 = Some o2"
    and er: "fd_entry s r = Some pr" and ew: "fd_entry s w = Some pw"
    and lim: "2 < fd_limit s"
    and ne: "distinct [r, w, d1, d2, 1, 2]"
  shows "webkit_stop_log_capture s =
     s\<lparr>fdtab := (fdtab s)(1 \<mapsto> o1, d1 := None, 2 \<mapsto> o2, d2 := None, r := None, w := None),
        webkit_capture_enabled := False\<rparr>"
proof -
  note rng = fd_entry_in_range [OF e1] fd_entry_in_range [OF e2] fd_entry_in_range [OF er]
    fd_entry_in_range [OF ew]
  have nes: "r \<noteq> w" "r \<noteq> d1" "r \<noteq> d2" "r \<noteq> 1" "r \<noteq> 2" "w \<noteq> d1" "w \<noteq> d2" "w \<noteq> 1"
      "w \<noteq> 2" "d1 \<noteq> d2" "d1 \<noteq> 1" "d1 \<noteq> 2" "d2 \<noteq> 1" "d2 \<noteq> 2"
      "w \<noteq> r" "d1 \<noteq> r" "d2 \<noteq> r" "d1 \<noteq> w" "d2 \<noteq> w" "d2 \<noteq> d1"
    using ne by auto
  define s1 where "s1 = s\<lparr>fdtab := (fdtab s)(1 \<mapsto> o1, d1 := None)\<rparr>"
  define s2 where "s2 = s1\<lparr>fdtab := (fdtab s1)(2 \<mapsto> o2, d2 := None)\<rparr>"
  define s3 where "s3 = s2\<lparr>fdtab := (fdtab s2)(r := None)\<rparr>"
  define s4 where "s4 = s3\<lparr>fdtab := (fdtab s3)(w := None)\<rparr>"
  have a1: "restore_stream s (webkit_original_stdout s) 1 = s1"
    unfolding s1_def so using e1 lim nes by (intro restore_stream_open) auto
  have e2': "fd_entry s1 d2 = Some o2" using rng nes by (simp add: s1_def)
  have se1: "webkit_original_stderr s1 = Some (FILE d2)" by (simp add: s1_def se)
  have l1: "fd_limit s1 = fd_limit s" by (simp add: s1_def)
  have a2: "restore_stream s1 (webkit_original_stderr s1) 2 = s2"
    unfolding s2_def se1 using e2' lim nes by (intro restore_stream_open) (auto simp: l1)
  have "fd_entry s2 r = Some pr" using rng nes by (simp add: s2_def s1_def)
  then have a3: "snd (sys_close s2 (fst (webkit_log_pipe s2))) = s3"
    using lp by (simp add: close_open s3_def s2_def s1_def)
  have "fd_entry s3 w = Some pw" using rng nes by (simp add: s3_def s2_def s1_def)
  then have a4: "snd (sys_close s3 (snd (webkit_log_pipe s3))) = s4"
    using lp by (simp add: close_open s4_def s3_def s2_def s1_def)
  have "webkit_stop_log_capture s = s4\<lparr>webkit_capture_enabled := False\<rparr>"
    using en by (simp add: webkit_stop_log_capture_def Let_def a1 a2 a3 a4)
  then show ?thesis by (simp add: s4_def s3_def s2_def s1_def)
qed

lemma plan_facts:
  assumes r: "lowest_free tab lim = Some r"
    and w: "lowest_free (tab(r \<mapsto> PipeRead p)) lim = Some w"
    and d1: "lowest_free (tab(r \<mapsto> PipeRead p, w \<mapsto> PipeWrite p)) lim = Some d1"
    and d2: "lowest_free (tab(r \<mapsto> PipeRead p, w \<mapsto> PipeWrite p, d1 \<mapsto> o1)) lim = Some d2"
    and t1: "tab 1 = Some o1" and t2: "tab 2 = Some o2"
  shows "distinct [r, w, d1, d2, 1, 2] \<and>
         tab r = None \<and> tab w = None \<and> tab d1 = None \<and> tab d2 = None \<and>
         0 \<le> r \<and> r < lim \<and> 0 \<le> w \<and> w < lim \<and> 0 \<le> d1 \<and> d1 < lim \<and> 0 \<le> d2 \<and> d2 < lim"
proof -
  from lowest_free_SomeD [OF r] have fr: "tab r = None" "0 \<le> r" "r < lim" by auto
  from lowest_free_SomeD [OF w] have fw: "tab w = None" "w \<noteq> r" "0 \<le> w" "w < lim"
    by (auto split: if_splits)
  from lowest_free_SomeD [OF d1] have fd1: "tab d1 = None" "d1 \<noteq> r" "d1 \<noteq> w" "0 \<le> d1" "d1 < lim"
    by (auto split: if_splits)
  from lowest_free_SomeD [OF d2] have fd2: "tab d2 = None" "d2 \<noteq> r" "d2 \<noteq> w" "d2 \<noteq> d1"
      "0 \<le> d2" "d2 < lim"
    by (auto split: if_splits)
  show ?thesis using fr fw fd1 fd2 t1 t2 by auto
qed

lemma capture_inv_start:
  assumes inv: "capture_inv s0 s1 s"
    and lp: "webkit_log_pipe s1 = (r, w)" and ew: "fdtab s1 w = Some f"
    and rng: "0 \<le> w" "w < fd_limit s1" "2 < fd_limit s1" and ne: "w \<noteq> 1" "w \<noteq> 2"
  shows "capture_inv s0 s1 (webkit_start_log_capture s)"
proof (cases "webkit_capture_enabled s")
  case False
  then show ?thesis using inv by (simp add: start_when_disabled)
next
  case True
  from inv True have lim: "fd_limit s = fd_limit s1" and lps: "webkit_log_pipe s = (r, w)"
    and tw: "fdtab s w = Some f"
    using lp ew ne by (auto simp: capture_inv_def)
  have "fd_entry s w = Some f" using tw rng lim by (simp add: fd_entry_def)
  with True lps have "webkit_start_log_capture s = s\<lparr>fdtab := (fdtab s)(1 \<mapsto> f, 2 \<mapsto> f)\<rparr>"
    using rng ne lim by (intro start_active) auto
  then show ?thesis using inv True by (simp add: capture_inv_def)
qed

lemma capture_inv_stop:
  assumes inv: "capture_inv s0 s1 s"
    and lp: "webkit_log_pipe s1 = (r, w)"
    and so: "webkit_original_stdout s1 = Some (FILE d1)"
    and se: "webkit_original_stderr s1 = Some (FILE d2)"
    and tab: "fdtab s1 = (fdtab s0)(r \<mapsto> PipeRead p, w \<mapsto> PipeWrite p, d1 \<mapsto> o1, d2 \<mapsto> o2)"
    and t1: "fdtab s0 1 = Some o1" and t2: "fdtab s0 2 = Some o2" and lim2: "2 < fd_limit s1"
    and facts: "distinct [r, w, d1, d2, 1, 2] \<and>
         fdtab s0 r = None \<and> fdtab s0 w = None \<and> fdtab s0 d1 = None \<and> fdtab s0 d2 = None \<and>
         0 \<le> r \<and> r < fd_limit s1 \<and> 0 \<le> w \<and> w < fd_limit s1 \<and>
         0 \<le> d1 \<and> d1 < fd_limit s1 \<and> 0 \<le> d2 \<and> d2 < fd_limit s1"
  shows "capture_inv s0 s1 (webkit_stop_log_capture s)"
proof (cases "webkit_capture_enabled s")
  case False
  then show ?thesis using inv by (simp add: stop_when_disabled)
next
  case True
  from inv True have lim: "fd_limit s = fd_limit s1" and np: "npipes s = npipes s1"
    and lps: "webkit_log_pipe s = (r, w)"
    and sos: "webkit_original_stdout s = Some (FILE d1)"
    and ses: "webkit_original_stderr s = Some (FILE d2)"
    and same: "\<And>k. k \<noteq> 1 \<Longrightarrow> k \<noteq> 2 \<Longrightarrow> fdtab s k = fdtab s1 k"
    using lp so se by (auto simp: capture_inv_def)
  have nes: "r \<noteq> w" "r \<noteq> d1" "r \<noteq> d2" "r \<noteq> 1" "r \<noteq> 2" "w \<noteq> d1" "w \<noteq> d2" "w \<noteq> 1"
      "w \<noteq> 2" "d1 \<noteq> d2" "d1 \<noteq> 1" "d1 \<noteq> 2" "d2 \<noteq> 1" "d2 \<noteq> 2"
      "w \<noteq> r" "d1 \<noteq> r" "d2 \<noteq> r" "d1 \<noteq> w" "d2 \<noteq> w" "d2 \<noteq> d1"
    using facts by auto
  have e1: "fd_entry s d1 = Some o1" using same [of d1] nes facts lim by (simp add: fd_entry_def tab)
  have e2: "fd_entry s d2 = Some o2" using same [of d2] nes facts lim by (simp add: fd_entry_def tab)
  have er: "fd_entry s r = Some (PipeRead p)"
    using same [of r] nes facts lim by (simp add: fd_entry_def tab)
  have ew: "fd_entry s w = Some (PipeWrite p)"
    using same [of w] nes facts lim by (simp add: fd_entry_def tab)
  have st: "webkit_stop_log_capture s =
     s\<lparr>fdtab := (fdtab s)(1 \<mapsto> o1, d1 := None, 2 \<mapsto> o2, d2 := None, r := None, w := None),
        webkit_capture_enabled := False\<rparr>"
    using True lps sos ses e1 e2 er ew by (rule stop_active) (use lim lim2 facts in auto)
  have "(fdtab s)(1 \<mapsto> o1, d1 := None, 2 \<mapsto> o2, d2 := None, r := None, w := None) = fdtab s0"
  proof
    fix k
    show "((fdtab s)(1 \<mapsto> o1, d1 := None, 2 \<mapsto> o2, d2 := None, r := None, w := None)) k = fdtab s0 k"
      using same [of k] nes facts t1 t2 by (simp add: tab)
  qed
  then show ?thesis using lim np by (simp add: st capture_inv_def)
qed

lemma run_capture_inv:
  assumes lp: "webkit_log_pipe s1 = (r, w)"
    and so: "webkit_original_stdout s1 = Some (FILE d1)"
    and se: "webkit_original_stderr s1 = Some (FILE d2)"
    and tab: "fdtab s1 = (fdtab s0)(r \<mapsto> PipeRead p, w \<mapsto> PipeWrite p, d1 \<mapsto> o1, d2 \<mapsto> o2)"
    and t1: "fdtab s0 1 = Some o1" and t2: "fdtab s0 2 = Some o2" and lim2: "2 < fd_limit s1"
    and facts: "distinct [r, w, d1, d2, 1, 2] \<and>
         fdtab s0 r = None \<and> fdtab s0 w = None \<and> fdtab s0 d1 = None \<and> fdtab s0 d2 = None \<and>
         0 \<le> r \<and> r < fd_limit s1 \<and> 0 \<le> w \<and> w < fd_limit s1 \<and>
         0 \<le> d1 \<and> d1 < fd_limit s1 \<and> 0 \<le> d2 \<and> d2 < fd_limit s1"
  shows "list_all is_start_or_stop cs \<Longrightarrow> capture_inv s0 s1 s \<Longrightarrow>
         \<exists>s'. run cs s = Inr s' \<and> capture_inv s0 s1 s'"
proof (induction cs arbitrary: s)
  case Nil
  then show ?case by simp
next
  case (Cons c cs)
  have w: "fdtab s1 w = Some (PipeWrite p)" using facts by (auto simp: tab)
  show ?case
  proof (cases c)
    case Start
    have "capture_inv s0 s1 (webkit_start_log_capture s)"
      using Cons.prems(2) lp w by (rule capture_inv_start) (use facts lim2 in auto)
    then show ?thesis using Cons.IH Cons.prems(1) Start by simp
  next
    case Stop
    have "capture_inv s0 s1 (webkit_stop_log_capture s)"
      using Cons.prems(2) lp so se tab t1 t2 lim2 facts by (rule capture_inv_stop)
    then show ?thesis using Cons.IH Cons.prems(1) Stop by simp
  next
    case Initialize
    then show ?thesis using Cons.prems(1) by simp
  next
    case (Drain b n)
    then show ?thesis using Cons.prems(1) by simp
  qed
qed

lemma consume_min: "consume s (min k (length (channel_data s))) = consume s k"
  by (auto simp: consume_def channel_data_def min_def split: option.splits ofile.splits)

lemma reinit_after_stop:
  assumes dis: "\<not> webkit_capture_enabled s0"
    and o1: "fd_entry s0 1 = Some o1" and o2: "fd_entry s0 2 = Some o2"
    and r: "lowest_free (fdtab s0) (fd_limit s0) = Some r"
    and w: "lowest_free ((fdtab s0)(r \<mapsto> PipeRead (npipes s0))) (fd_limit s0) = Some w"
    and d1: "lowest_free ((fdtab s0)(r \<mapsto> PipeRead (npipes s0), w \<mapsto> PipeWrite (npipes s0)))
               (fd_limit s0) = Some d1"
    and d2: "lowest_free ((fdtab s0)(r \<mapsto> PipeRead (npipes s0), w \<mapsto> PipeWrite (npipes s0),
               d1 \<mapsto> o1)) (fd_limit s0) = Some d2"
    and wr: "writable o1" "writable o2"
    and cs: "list_all is_start_or_stop cs"
  shows "\<exists>s'. run cs (webkit_init_log_capture s0) = Inr s' \<and>
           fd_limit (webkit_stop_log_capture s') = fd_limit s0 \<and>
           webkit_init_log_capture (webkit_stop_log_capture s') =
             (webkit_stop_log_capture s')
               \<lparr>fdtab := (fdtab s0)(r \<mapsto> PipeRead (Suc (npipes s0)),
                                    w \<mapsto> PipeWrite (Suc (npipes s0)), d1 \<mapsto> o1, d2 \<mapsto> o2),
                pipebuf := (pipebuf (webkit_stop_log_capture s'))(Suc (npipes s0) := []),
                npipes := Suc (Suc (npipes s0)),
                glog := glog (webkit_stop_log_capture s') @
                          [(G_LOG_LEVEL_DEBUG, ''WebKit log capture initialized'')],
                webkit_log_pipe := (r, w),
                webkit_original_stdout := Some (FILE d1),
                webkit_original_stderr := Some (FILE d2),
                webkit_capture_enabled := True\<rparr>"
proof -
  define s1 where "s1 = webkit_init_log_capture s0"
  have s1: "s1 = s0\<lparr>fdtab := (fdtab s0)(r \<mapsto> PipeRead (npipes s0), w \<mapsto> PipeWrite (npipes s0),
                           d1 \<mapsto> o1, d2 \<mapsto> o2),
        pipebuf := (pipebuf s0)(npipes s0 := []),
        npipes := Suc (npipes s0),
        glog := glog s0 @ [(G_LOG_LEVEL_DEBUG, ''WebKit log capture initialized'')],
        webkit_log_pipe := (r, w),
        webkit_original_stdout := Some (FILE d1),
        webkit_original_stderr := Some (FILE d2),
        webkit_capture_enabled := True\<rparr>"
    unfolding s1_def using dis r w d1 d2 o1 o2 wr by (rule init_unfold)
  note t = fd_entry_in_range [OF o1] fd_entry_in_range [OF o2]
  have facts: "distinct [r, w, d1, d2, 1, 2] \<and>
         fdtab s0 r = None \<and> fdtab s0 w = None \<and> fdtab s0 d1 = None \<and> fdtab s0 d2 = None \<and>
         0 \<le> r \<and> r < fd_limit s0 \<and> 0 \<le> w \<and> w < fd_limit s0 \<and>
         0 \<le> d1 \<and> d1 < fd_limit s0 \<and> 0 \<le> d2 \<and> d2 < fd_limit s0"
    using r w d1 d2 by (rule plan_facts) (use t in auto)
  have lim: "fd_limit s1 = fd_limit s0" by (simp add: s1)
  have en1: "webkit_capture_enabled s1" by (simp add: s1)
  have inv1: "capture_inv s0 s1 s1" using en1 by (simp add: capture_inv_def)
  have "\<exists>s'. run cs s1 = Inr s' \<and> capture_inv s0 s1 s'"
  proof (rule run_capture_inv [OF _ _ _ _ _ _ _ _ cs inv1])
    show "webkit_log_pipe s1 = (r, w)" by (simp add: s1)
    show "webkit_original_stdout s1 = Some (FILE d1)" by (simp add: s1)
    show "webkit_original_stderr s1 = Some (FILE d2)" by (simp add: s1)
    show "fdtab s1 = (fdtab s0)(r \<mapsto> PipeRead (npipes s0), w \<mapsto> PipeWrite (npipes s0),
        d1 \<mapsto> o1, d2 \<mapsto> o2)" by (simp add: s1)
    show "fdtab s0 1 = Some o1" using t by simp
    show "fdtab s0 2 = Some o2" using t by simp
    show "2 < fd_limit s1" using t by (simp add: lim)
    show "distinct [r, w, d1, d2, 1, 2] \<and>
         fdtab s0 r = None \<and> fdtab s0 w = None \<and> fdtab s0 d1 = None \<and> fdtab s0 d2 = None \<and>
         0 \<le> r \<and> r < fd_limit s1 \<and> 0 \<le> w \<and> w < fd_limit s1 \<and>
         0 \<le> d1 \<and> d1 < fd_limit s1 \<and> 0 \<le> d2 \<and> d2 < fd_limit s1"
      using facts by (simp add: lim)
  qed
  then obtain s' where run: "run cs s1 = Inr s'" and inv: "capture_inv s0 s1 s'" by blast
  define t where "t = webkit_stop_log_capture s'"
  have "capture_inv s0 s1 t"
    unfolding t_def using inv
  proof (rule capture_inv_stop)
    show "webkit_log_pipe s1 = (r, w)" by (simp add: s1)
    show "webkit_original_stdout s1 = Some (FILE d1)" by (simp add: s1)
    show "webkit_original_stderr s1 = Some (FILE d2)" by (simp add: s1)
    show "fdtab s1 = (fdtab s0)(r \<mapsto> PipeRead (npipes s0), w \<mapsto> PipeWrite (npipes s0),
        d1 \<mapsto> o1, d2 \<mapsto> o2)" by (simp add: s1)
    show "fdtab s0 1 = Some o1" using fd_entry_in_range [OF o1] by simp
    show "fdtab s0 2 = Some o2" using fd_entry_in_range [OF o2] by simp
    show "2 < fd_limit s1" using fd_entry_in_range [OF o2] by (simp add: lim)
    show "distinct [r, w, d1, d2, 1, 2] \<and>
         fdtab s0 r = None \<and> fdtab s0 w = None \<and> fdtab s0 d1 = None \<and> fdtab s0 d2 = None \<and>
         0 \<le> r \<and> r < fd_limit s1 \<and> 0 \<le> w \<and> w < fd_limit s1 \<and>
         0 \<le> d1 \<and> d1 < fd_limit s1 \<and> 0 \<le> d2 \<and> d2 < fd_limit s1"
      using facts by (simp add: lim)
  qed
  moreover have tdis: "\<not> webkit_capture_enabled t" by (simp add: t_def stop_disables)
  ultimately have tt: "fdtab t = fdtab s0" "fd_limit t = fd_limit s0" "npipes t = Suc (npipes s0)"
    by (simp_all add: capture_inv_def s1)
  have r': "lowest_free (fdtab t) (fd_limit t) = Some r" using r by (simp add: tt)
  have w': "lowest_free ((fdtab t)(r \<mapsto> PipeRead (npipes t))) (fd_limit t) = Some w"
    unfolding tt w [symmetric] by (rule lowest_free_cong) simp
  have d1': "lowest_free ((fdtab t)(r \<mapsto> PipeRead (npipes t), w \<mapsto> PipeWrite (npipes t)))
               (fd_limit t) = Some d1"
    unfolding tt d1 [symmetric] by (rule lowest_free_cong) simp
  have d2': "lowest_free ((fdtab t)(r \<mapsto> PipeRead (npipes t), w \<mapsto> PipeWrite (npipes t),
               d1 \<mapsto> o1)) (fd_limit t) = Some d2"
    unfolding tt d2 [symmetric] by (rule lowest_free_cong) simp
  have o1': "fd_entry t 1 = Some o1" using fd_entry_in_range [OF o1] by (simp add: fd_entry_def tt)
  have o2': "fd_entry t 2 = Some o2" using fd_entry_in_range [OF o2] by (simp add: fd_entry_def tt)
  have "webkit_init_log_capture t =
     t\<lparr>fdtab := (fdtab t)(r \<mapsto> PipeRead (npipes t), w \<mapsto> PipeWrite (npipes t),
                           d1 \<mapsto> o1, d2 \<mapsto> o2),
        pipebuf := (pipebuf t)(npipes t := []),
        npipes := Suc (npipes t),
        glog := glog t @ [(G_LOG_LEVEL_DEBUG, ''WebKit log capture initialized'')],
        webkit_log_pipe := (r, w),
        webkit_original_stdout := Some (FILE d1),
        webkit_original_stderr := Some (FILE d2),
        webkit_capture_enabled := True\<rparr>"
    using tdis r' w' d1' d2' o1' o2' wr by (rule init_unfold)
  then show ?thesis using run tt by (auto simp: t_def s1_def)
qed


lemma pipe_has_reader_open:
  assumes "fd_entry s r = Some (PipeRead p)"
  shows "pipe_has_reader s p"
proof -
  from fd_entry_in_range [OF assms] have "r \<in> set [0..fd_limit s - 1]" "fdtab s r = Some (PipeRead p)"
    by auto
  then show ?thesis unfolding pipe_has_reader_def list_ex_iff by blast
qed

lemma capture_after_start:
  assumes en: "webkit_capture_enabled s" and lp: "webkit_log_pipe s = (r, w)"
    and er: "fd_entry s r = Some (PipeRead p)" and ew: "fd_entry s w = Some (PipeWrite p)"
    and empty: "pipebuf s p = []" and lim: "2 < fd_limit s"
    and ne: "r \<noteq> 1" "r \<noteq> 2" "w \<noteq> 1" "w \<noteq> 2"
    and b: "bytes \<noteq> []" "int (length bytes) < cap" "cap \<le> INT_MAX" "nat cap \<le> length buffer"
    and fits: "length bytes \<le> PIPE_CAPACITY"
  shows "\<exists>u. sys_write (webkit_start_log_capture s) 1 bytes = Inr (int (length bytes), u) \<and>
           channel_data u = bytes \<and>
           webkit_read_captured_log u buffer cap =
             Inr (int (length bytes), bytes @ 0 # drop (Suc (length bytes)) buffer,
                  consume u (length bytes))"
proof -
  define v where "v = webkit_start_log_capture s"
  define u where "u = v\<lparr>pipebuf := (pipebuf v)(p := bytes)\<rparr>"
  note rr = fd_entry_in_range [OF er]
  have st: "v = s\<lparr>fdtab := (fdtab s)(1 \<mapsto> PipeWrite p, 2 \<mapsto> PipeWrite p)\<rparr>"
    unfolding v_def using en lp ew lim ne(3,4) by (rule start_active)
  have erv: "fd_entry v r = Some (PipeRead p)" using rr ne by (simp add: st)
  have rdr: "pipe_has_reader v p" using erv by (rule pipe_has_reader_open)
  have e1: "fd_entry v 1 = Some (PipeWrite p)" using lim by (simp add: st)
  have emp: "pipebuf v p = []" using empty by (simp add: st)
  have wr: "sys_write v 1 bytes = Inr (int (length bytes), u)"
    using rdr fits by (simp add: sys_write_def e1 emp u_def)
  have enu: "webkit_capture_enabled u" using en by (simp add: u_def st)
  have cd: "channel_data u = bytes"
    using rr ne lp by (simp add: u_def st channel_data_def fd_entry_def)
  have pos: "0 < length bytes" using b(1) by simp
  then have cap2: "2 \<le> cap" using b(2) by linarith
  have "webkit_read_captured_log u buffer cap =
     Inr (int (min (nat (cap - 1)) (length (channel_data u))),
          take (nat (cap - 1)) (channel_data u) @
            0 # drop (Suc (min (nat (cap - 1)) (length (channel_data u)))) buffer,
          consume u (nat (cap - 1)))"
    using enu cap2 b(3,4) by (rule drain_data_ready) (use b cd in auto)
  moreover have "min (nat (cap - 1)) (length bytes) = length bytes" using b by simp
  moreover have "take (nat (cap - 1)) bytes = bytes" using b by simp
  moreover have "consume u (nat (cap - 1)) = consume u (length bytes)"
    using consume_min [of u "nat (cap - 1)"] b by (simp add: cd)
  ultimately have "webkit_read_captured_log u buffer cap =
             Inr (int (length bytes), bytes @ 0 # drop (Suc (length bytes)) buffer,
                  consume u (length bytes))"
    using cd by simp
  with wr cd show ?thesis unfolding v_def by blast
qed


lemma std_proc_disabled: "\<not> webkit_capture_enabled std_proc"
  by (simp add: std_proc_def process_start_def)










lemma take_min_length: "take (min k (length xs)) xs = take k xs"
  by (simp add: min_def)

lemma length_hello: "length hello = 6"
  by (simp add: hello_def)

lemma hello_nonempty: "hello \<noteq> []"
  by (simp add: hello_def)

text \<open>
  Claim C1, as amended. With capture enabled, a capacity of at least 1 and a
  buffer of at least that many bytes: when the capacity is at least 2 and bytes
  are waiting in the channel, the drain moves the first \<open>n\<close> of them to the front
  of the buffer, \<open>n\<close> being the smaller of \<open>capacity - 1\<close> and the number waiting,
  writes the terminator right behind them, takes them out of the channel and
  returns \<open>n\<close>, so \<open>1 \<le> n \<le> capacity - 1\<close>. When the capacity is 1 or nothing is
  waiting, it returns 0 and leaves the buffer and the state as they were.
\<close>

theorem drain_returns_pending_bytes:
  assumes "webkit_capture_enabled s" and "1 \<le> cap" and "cap \<le> INT_MAX"
    and "nat cap \<le> length buffer"
  shows "(2 \<le> cap \<and> channel_data s \<noteq> [] \<longrightarrow>
            webkit_read_captured_log s buffer cap =
              Inr (int (min (nat (cap - 1)) (length (channel_data s))),
                   take (min (nat (cap - 1)) (length (channel_data s))) (channel_data s) @
                     0 # drop (Suc (min (nat (cap - 1)) (length (channel_data s)))) buffer,
                   consume s (min (nat (cap - 1)) (length (channel_data s)))) \<and>
            1 \<le> int (min (nat (cap - 1)) (length (channel_data s))) \<and>
            int (min (nat (cap - 1)) (length (channel_data s))) \<le> cap - 1) \<and>
         (cap = 1 \<or> channel_data s = [] \<longrightarrow>
            webkit_read_captured_log s buffer cap = Inr (0, buffer, s))"
proof -
  have a: "webkit_read_captured_log s buffer cap = Inr (0, buffer, s)" if "cap = 1"
    using that assms(1) by (simp add: drain_capacity_one)
  have b: "webkit_read_captured_log s buffer cap = Inr (0, buffer, s)" if "channel_data s = []"
    using assms(1) that by (rule drain_empty_channel) (use assms(2) in \<open>simp add: INT_MIN_def\<close>)
  have c: "webkit_read_captured_log s buffer cap =
              Inr (int (min (nat (cap - 1)) (length (channel_data s))),
                   take (min (nat (cap - 1)) (length (channel_data s))) (channel_data s) @
                     0 # drop (Suc (min (nat (cap - 1)) (length (channel_data s)))) buffer,
                   consume s (min (nat (cap - 1)) (length (channel_data s))))"
    if "2 \<le> cap" "channel_data s \<noteq> []"
    using drain_data_ready [OF assms(1) that(1) assms(3,4) that(2)]
    by (simp only: consume_min take_min_length)
  have d: "1 \<le> int (min (nat (cap - 1)) (length (channel_data s)))"
    if "2 \<le> cap" "channel_data s \<noteq> []"
    using that by (cases "channel_data s") auto
  have e: "int (min (nat (cap - 1)) (length (channel_data s))) \<le> cap - 1"
    if "2 \<le> cap"
    using that by simp
  show ?thesis using a b c d e by blast
qed

lemma start_init_std_proc:
  "webkit_start_log_capture (webkit_init_log_capture std_proc) =
     (webkit_init_log_capture std_proc)
       \<lparr>fdtab := (fdtab (webkit_init_log_capture std_proc))(1 \<mapsto> PipeWrite 0, 2 \<mapsto> PipeWrite 0)\<rparr>"
  by (rule start_active [where r = 3 and w = 4])
    (simp_all add: init_std_proc fd_entry_def std_tab_def)

lemma enabled_sys_write:
  "sys_write s fd bytes = Inr (n, u) \<Longrightarrow> webkit_capture_enabled u = webkit_capture_enabled s"
  by (auto simp: sys_write_def split: option.splits ofile.splits if_splits)

lemma hello_pending_written:
  "sys_write (webkit_start_log_capture (webkit_init_log_capture std_proc)) 1 hello =
     Inr (6, hello_pending) \<and>
   channel_data hello_pending = hello"
proof -
  have "\<exists>u. sys_write (webkit_start_log_capture (webkit_init_log_capture std_proc)) 1 hello =
           Inr (int (length hello), u) \<and>
         channel_data u = hello \<and>
         webkit_read_captured_log u (replicate 64 0) 64 =
           Inr (int (length hello), hello @ 0 # drop (Suc (length hello)) (replicate 64 0),
                consume u (length hello))"
    by (rule capture_after_start [where r = 3 and w = 4 and p = 0])
      (simp_all add: init_std_proc fd_entry_def std_tab_def hello_def INT_MAX_def PIPE_CAPACITY_def)
  then obtain u where
    u: "sys_write (webkit_start_log_capture (webkit_init_log_capture std_proc)) 1 hello =
          Inr (int (length hello), u)"
    and cd: "channel_data u = hello"
    by blast
  from u have "hello_pending = u" by (simp add: hello_pending_def)
  with u cd show ?thesis by (simp add: length_hello)
qed

lemma hello_pending_enabled: "webkit_capture_enabled hello_pending"
  using enabled_sys_write [OF conjunct1 [OF hello_pending_written]]
  by (simp add: start_keeps_enabled init_std_proc)

lemma hello_pending_data: "channel_data hello_pending = hello"
  using hello_pending_written by blast

theorem drain_returns_pending_bytes_witness:
  "webkit_capture_enabled hello_pending \<and> channel_data hello_pending = hello \<and>
   webkit_read_captured_log hello_pending (replicate 64 0) 64 =
     Inr (6, hello @ 0 # replicate 57 0, consume hello_pending 6) \<and>
   webkit_read_captured_log hello_pending (replicate 4 0) 4 =
     Inr (3, [104, 101, 108, 0], consume hello_pending 3) \<and>
   webkit_read_captured_log (consume hello_pending 6) (replicate 64 0) 64 =
     Inr (0, replicate 64 0, consume hello_pending 6)"
proof -
  have en: "webkit_capture_enabled hello_pending" by (rule hello_pending_enabled)
  have a: "webkit_read_captured_log hello_pending (replicate 64 0) 64 =
     Inr (6, hello @ 0 # replicate 57 0, consume hello_pending 6)"
    using drain_returns_pending_bytes [of hello_pending 64 "replicate 64 0"] en
    by (simp add: hello_pending_data length_hello hello_nonempty INT_MAX_def)
  have b: "webkit_read_captured_log hello_pending (replicate 4 0) 4 =
     Inr (3, [104, 101, 108, 0], consume hello_pending 3)"
    using drain_returns_pending_bytes [of hello_pending 4 "replicate 4 0"] en
    by (simp add: hello_pending_data length_hello hello_nonempty INT_MAX_def) (simp add: hello_def)
  have en': "webkit_capture_enabled (consume hello_pending 6)"
    using en by (simp add: consume_def split: option.splits ofile.splits)
  have cd: "channel_data (consume hello_pending 6) = []"
    using hello_pending_data
    by (auto simp: consume_def channel_data_def fd_entry_def hello_def split: option.splits ofile.splits if_splits)
  have c: "webkit_read_captured_log (consume hello_pending 6) (replicate 64 0) 64 =
     Inr (0, replicate 64 0, consume hello_pending 6)"
    using drain_returns_pending_bytes [of "consume hello_pending 6" 64 "replicate 64 0"] en' cd
    by (simp add: INT_MAX_def)
  show ?thesis using en hello_pending_data a b c by blast
qed

text \<open>
  The claim as first stated promises a return value between 1 and \<open>capacity - 1\<close>
  whenever data is ready, from capacity 1 on. With capacity 1 the read is asked
  for no bytes: six bytes are waiting, and the drain returns 0 and writes nothing.
\<close>

theorem drain_capacity_one_counterexample:
  "webkit_capture_enabled hello_pending \<and> channel_data hello_pending = hello \<and> hello \<noteq> [] \<and>
   webkit_read_captured_log hello_pending [7] 1 = Inr (0, [7], hello_pending)"
  by (simp add: hello_pending_enabled hello_pending_data drain_capacity_one) (simp add: hello_def)

section \<open>The lifecycle of the capture flag\<close>

lemma std_proc_plan:
  "lowest_free (fdtab std_proc) (fd_limit std_proc) = Some 3 \<and>
   lowest_free ((fdtab std_proc)(3 \<mapsto> PipeRead (npipes std_proc))) (fd_limit std_proc) = Some 4 \<and>
   lowest_free ((fdtab std_proc)(3 \<mapsto> PipeRead (npipes std_proc), 4 \<mapsto> PipeWrite (npipes std_proc)))
     (fd_limit std_proc) = Some 5 \<and>
   lowest_free ((fdtab std_proc)(3 \<mapsto> PipeRead (npipes std_proc), 4 \<mapsto> PipeWrite (npipes std_proc),
     5 \<mapsto> Device 1)) (fd_limit std_proc) = Some 6"
  by (simp add: std_proc_def process_start_def lowest_free_def std_tab_def upto.simps)

lemma std_proc_entries: "fd_entry std_proc 1 = Some (Device 1) \<and> fd_entry std_proc 2 = Some (Device 2)"
  by (simp add: std_proc_def process_start_def fd_entry_def std_tab_def)

lemma init_std_proc_enabled: "webkit_capture_enabled (webkit_init_log_capture std_proc)"
  by (simp add: init_std_proc)

lemma reinit_std_proc_enabled:
  "webkit_capture_enabled (webkit_init_log_capture (webkit_stop_log_capture
     (webkit_start_log_capture (webkit_init_log_capture std_proc))))"
proof -
  have cs: "list_all is_start_or_stop [Start]" by simp
  have wr: "writable (Device 1)" "writable (Device 2)" by simp_all
  from reinit_after_stop [OF std_proc_disabled conjunct1 [OF std_proc_entries]
      conjunct2 [OF std_proc_entries] conjunct1 [OF std_proc_plan]
      conjunct1 [OF conjunct2 [OF std_proc_plan]]
      conjunct1 [OF conjunct2 [OF conjunct2 [OF std_proc_plan]]]
      conjunct2 [OF conjunct2 [OF conjunct2 [OF std_proc_plan]]] wr cs]
  obtain s' where "run [Start] (webkit_init_log_capture std_proc) = Inr s'"
    and "webkit_capture_enabled (webkit_init_log_capture (webkit_stop_log_capture s'))"
    by auto
  then show ?thesis by simp
qed

lemma start_init_std_proc_empty:
  "channel_data (webkit_start_log_capture (webkit_init_log_capture std_proc)) = []"
  by (simp add: start_init_std_proc channel_data_def fd_entry_def) (simp add: init_std_proc)

lemma sys_pipe_std_proc: "fst (sys_pipe std_proc) = 0"
  using init_enabled_iff [OF std_proc_disabled] init_std_proc_enabled by simp

text \<open>
  Claim C2, as amended. The flag is unset at process start. From an unset flag,
  initialisation sets it exactly when pipe creation succeeds; a set flag stays
  set across initialisation, \<^verbatim>\<open>start\<close>, the drain, and any sequence of \<^verbatim>\<open>start\<close> and
  drain calls. \<^verbatim>\<open>stop\<close>, which is the only teardown, always leaves it unset, and
  it stays unset until an initialisation succeeds again: while it is unset,
  \<^verbatim>\<open>start\<close>, \<^verbatim>\<open>stop\<close> and the drain, alone or in sequence, change nothing.
\<close>

theorem capture_enabled_lifecycle:
  "\<not> webkit_capture_enabled (process_start tab lim) \<and>
   (\<not> webkit_capture_enabled s \<longrightarrow>
      webkit_capture_enabled (webkit_init_log_capture s) = (fst (sys_pipe s) = 0)) \<and>
   (webkit_capture_enabled t \<longrightarrow>
      webkit_capture_enabled (webkit_init_log_capture t) \<and>
      webkit_capture_enabled (webkit_start_log_capture t)) \<and>
   (webkit_capture_enabled t \<and> webkit_read_captured_log t buffer n = Inr (k, buffer', t') \<longrightarrow>
      webkit_capture_enabled t') \<and>
   (webkit_capture_enabled t \<and> list_all is_start_or_drain cs \<and> run cs t = Inr t'' \<longrightarrow>
      webkit_capture_enabled t'') \<and>
   \<not> webkit_capture_enabled (webkit_stop_log_capture u) \<and>
   (\<not> webkit_capture_enabled s \<longrightarrow>
      webkit_start_log_capture s = s \<and> webkit_stop_log_capture s = s \<and>
      webkit_read_captured_log s buffer n = Inr (0, buffer, s)) \<and>
   (\<not> webkit_capture_enabled s \<and> list_all (\<lambda>c. \<not> is_initialize c) cs' \<longrightarrow>
      run cs' s = Inr s)"
proof -
  have a: "webkit_capture_enabled t'"
    if "webkit_capture_enabled t" "webkit_read_captured_log t buffer n = Inr (k, buffer', t')"
    using drain_keeps_enabled [OF that(2)] that(1) by simp
  have b: "webkit_capture_enabled t''"
    if "webkit_capture_enabled t" "list_all is_start_or_drain cs" "run cs t = Inr t''"
    using run_start_drain_keeps_enabled [OF that(2,3)] that(1) by simp
  show ?thesis
    using a b
    by (simp add: start_disabled init_enabled_iff init_when_enabled start_keeps_enabled
        stop_disables start_when_disabled stop_when_disabled drain_when_disabled
        run_when_disabled)
qed

theorem capture_enabled_lifecycle_witness:
  "\<not> webkit_capture_enabled std_proc \<and> fst (sys_pipe std_proc) = 0 \<and>
   webkit_capture_enabled (webkit_init_log_capture std_proc) \<and>
   webkit_capture_enabled (webkit_start_log_capture (webkit_init_log_capture std_proc)) \<and>
   run [Start, Drain (replicate 8 0) 8, Start] (webkit_init_log_capture std_proc) =
     Inr (webkit_start_log_capture (webkit_start_log_capture (webkit_init_log_capture std_proc))) \<and>
   webkit_capture_enabled
     (webkit_start_log_capture (webkit_start_log_capture (webkit_init_log_capture std_proc))) \<and>
   \<not> webkit_capture_enabled (webkit_stop_log_capture (webkit_init_log_capture std_proc)) \<and>
   run [Start, Drain [0, 0] 2, Stop] std_proc = Inr std_proc"
proof -
  let ?t = "webkit_init_log_capture std_proc"
  let ?cs = "[Start, Drain (replicate 8 0) 8, Start]"
  let ?cs' = "[Start, Drain [0, 0] 2, Stop]"
  have en: "webkit_capture_enabled (webkit_start_log_capture ?t)"
    by (simp add: start_keeps_enabled init_std_proc_enabled)
  have dr: "webkit_read_captured_log (webkit_start_log_capture ?t) (replicate 8 0) 8 =
      Inr (0, replicate 8 0, webkit_start_log_capture ?t)"
    using en start_init_std_proc_empty by (rule drain_empty_channel) (simp add: INT_MIN_def)
  have run: "run ?cs ?t = Inr (webkit_start_log_capture (webkit_start_log_capture ?t))"
    by (simp add: dr)
  have cs: "list_all is_start_or_drain ?cs" by simp
  have cs': "list_all (\<lambda>c. \<not> is_initialize c) ?cs'" by simp
  note T = capture_enabled_lifecycle [of std_tab 16 std_proc ?t "replicate 8 0" 8 0 "replicate 8 0"
      ?t ?cs "webkit_start_log_capture (webkit_start_log_capture ?t)" ?t ?cs']
  have x: "webkit_capture_enabled
     (webkit_start_log_capture (webkit_start_log_capture ?t))"
    using T init_std_proc_enabled cs run by blast
  have y: "\<not> webkit_capture_enabled (webkit_stop_log_capture ?t)" using T by blast
  have z: "run ?cs' std_proc = Inr std_proc" using T std_proc_disabled cs' by blast
  show ?thesis
    using std_proc_disabled sys_pipe_std_proc init_std_proc_enabled en run x y z by blast
qed

text \<open>
  The claim as first stated keeps the flag set across \<^verbatim>\<open>stop\<close> calls and makes
  its clearing permanent. There is one \<^verbatim>\<open>stop\<close>, it clears the flag, and the next
  initialisation sets it again.
\<close>

theorem stop_clears_flag_counterexample:
  "webkit_capture_enabled (webkit_init_log_capture std_proc) \<and>
   \<not> webkit_capture_enabled
      (webkit_stop_log_capture (webkit_start_log_capture (webkit_init_log_capture std_proc))) \<and>
   webkit_capture_enabled
      (webkit_init_log_capture (webkit_stop_log_capture
         (webkit_start_log_capture (webkit_init_log_capture std_proc))))"
  using init_std_proc_enabled stop_disables reinit_std_proc_enabled by blast

section \<open>Thread identity and the URI scheme callback\<close>

lemma filter_eq_owner:
  "distinct ts \<Longrightarrow> owner \<in> set ts \<Longrightarrow> filter (\<lambda>t. t = owner) ts = [owner]"
proof (induction ts)
  case Nil
  then show ?case by simp
next
  case (Cons a ts)
  show ?case
  proof (cases "a = owner")
    case True
    with Cons.prems have "owner \<notin> set ts" by simp
    then have "filter (\<lambda>t. t = owner) ts = []" by (auto simp: filter_empty_conv)
    with True show ?thesis by simp
  next
    case False
    with Cons show ?thesis by simp
  qed
qed

lemma is_main_thread_iff:
  "(is_main_thread t (store_main_thread_id owner g) \<noteq> 0) = (t = owner)"
  by (simp add: is_main_thread_def store_main_thread_id_def pthread_equal_def)

text \<open>
  Claim C9. After \<^verbatim>\<open>store_main_thread_id\<close> has run on thread \<open>owner\<close>,
  \<^verbatim>\<open>is_main_thread\<close> is nonzero on a thread exactly when that thread is \<open>owner\<close>;
  among any distinct threads that include the owner, the owner is the only one
  to observe ownership.
\<close>

theorem owner_thread_identity:
  "(is_main_thread t (store_main_thread_id owner g) \<noteq> 0) = (t = owner) \<and>
   (distinct ts \<and> owner \<in> set ts \<longrightarrow>
      filter (\<lambda>t. is_main_thread t (store_main_thread_id owner g) \<noteq> 0) ts = [owner])"
  by (simp add: is_main_thread_iff filter_eq_owner)

theorem owner_thread_identity_witness:
  "distinct [4, 7, 9 :: pthread_t] \<and> 7 \<in> set [4, 7, 9 :: pthread_t] \<and>
   is_main_thread 7 (store_main_thread_id 7 \<lparr>main_thread_id = 0\<rparr>) \<noteq> 0 \<and>
   is_main_thread 4 (store_main_thread_id 7 \<lparr>main_thread_id = 0\<rparr>) = 0 \<and>
   filter (\<lambda>t. is_main_thread t (store_main_thread_id 7 \<lparr>main_thread_id = 0\<rparr>) \<noteq> 0) [4, 7, 9] = [7]"
proof -
  note T = owner_thread_identity [of _ 7 "\<lparr>main_thread_id = 0\<rparr>" "[4, 7, 9]"]
  have a: "is_main_thread 7 (store_main_thread_id 7 \<lparr>main_thread_id = 0\<rparr>) \<noteq> 0"
    using T [of 7] by simp
  have b: "is_main_thread 4 (store_main_thread_id 7 \<lparr>main_thread_id = 0\<rparr>) = 0"
    using T [of 4] by simp
  have c: "filter (\<lambda>t. is_main_thread t (store_main_thread_id 7 \<lparr>main_thread_id = 0\<rparr>) \<noteq> 0)
      [4, 7, 9] = [7]"
    using T [of 0] by simp
  show ?thesis using a b c by simp
qed

lemma sint_fits: "unat (n :: 64 word) < 2 ^ 63 \<Longrightarrow> sint n = int (unat n)"
proof -
  assume a: "unat n < 2 ^ 63"
  have "uint n < 2 ^ 63" using a by (simp add: unat_eq_nat_uint del: nat_uint_eq)
  moreover have "- (2 ^ 63) \<le> uint n"
  proof -
    have "- (2 ^ 63) \<le> (0 :: int)" by simp
    also have "0 \<le> uint n" by simp
    finally show ?thesis .
  qed
  ultimately have "signed_take_bit 63 (uint n) = uint n"
    by (intro signed_take_bit_int_eq_self)
  then show ?thesis by (simp add: sint_uint)
qed

text \<open>
  Claim C10. The URI scheme callback completes every request exactly once. When
  the resolver returns a buffer, a positive length and a MIME type, the one
  completion is \<^verbatim>\<open>webkit_uri_scheme_request_finish\<close> on a stream over that buffer
  with that length and MIME type (the length as \<^verbatim>\<open>gssize\<close>, which is the
  resolver's length whenever that is below \<open>2^63\<close>). When the buffer is NULL, the
  length 0 or the MIME type NULL, the one completion is the error
  \<^verbatim>\<open>Not found\<close> with code 404 in the domain \<^verbatim>\<open>dumber\<close>.
\<close>

theorem uri_scheme_completes_once:
  "length (filter completes_request (on_uri_scheme goResolveURIScheme uri)) = 1 \<and>
   (goResolveURIScheme uri 0 None = (Some b, n, Some m) \<and> 0 < n \<longrightarrow>
      filter completes_request (on_uri_scheme goResolveURIScheme uri) =
        [Request_finish b (sint n) (sint n) m] \<and>
      (unat n < 2 ^ 63 \<longrightarrow> sint n = int (unat n))) \<and>
   (goResolveURIScheme uri 0 None = (buf, n', mime) \<and> (buf = None \<or> n' = 0 \<or> mime = None) \<longrightarrow>
      filter completes_request (on_uri_scheme goResolveURIScheme uri) =
        [Request_finish_error ''dumber'' 404 ''Not found''])"
  by (auto simp: on_uri_scheme_def sint_fits split: prod.splits)


theorem uri_scheme_completes_once_witness:
  "length (filter completes_request
      (on_uri_scheme (\<lambda>u len mt. (Some 4096, 5, Some ''text/html'')) ''dumb://home'')) = 1 \<and>
   filter completes_request
      (on_uri_scheme (\<lambda>u len mt. (Some 4096, 5, Some ''text/html'')) ''dumb://home'') =
     [Request_finish 4096 5 5 ''text/html''] \<and>
   filter completes_request (on_uri_scheme (\<lambda>u len mt. (None, len, mt)) ''dumb://gone'') =
     [Request_finish_error ''dumber'' 404 ''Not found'']"
proof -
  have a: "filter completes_request
      (on_uri_scheme (\<lambda>u len mt. (Some 4096, 5, Some ''text/html'')) ''dumb://home'') =
     [Request_finish 4096 5 5 ''text/html'']"
    using uri_scheme_completes_once
      [of "\<lambda>u len mt. (Some 4096, 5, Some ''text/html'')" "''dumb://home''" 4096 5 "''text/html''"]
    by simp
  have b: "filter completes_request (on_uri_scheme (\<lambda>u len mt. (None, len, mt)) ''dumb://gone'') =
     [Request_finish_error ''dumber'' 404 ''Not found'']"
    using uri_scheme_completes_once
      [of "\<lambda>u len mt. (None, len, mt)" "''dumb://gone''" _ _ _ None 0 None]
    by simp
  show ?thesis using a b by simp
qed


section \<open>Properties of the log multiplexer\<close>

lemma interception_mask:
  "G_LOG_LEVEL_MASK OR G_LOG_FLAG_FATAL OR G_LOG_FLAG_RECURSION = - 1"
  by (simp add: G_LOG_LEVEL_MASK_def G_LOG_FLAG_FATAL_def G_LOG_FLAG_RECURSION_def)

lemma setup_entries:
  "webkit_setup_glib_log_handlers reg =
     [\<lparr>lh_domain = [], lh_levels = - 1, lh_func = Webkit_glib_log_handler, lh_data = None\<rparr>,
      \<lparr>lh_domain = ''GLib'', lh_levels = - 1, lh_func = Webkit_glib_log_handler, lh_data = None\<rparr>,
      \<lparr>lh_domain = ''Gtk'', lh_levels = - 1, lh_func = Webkit_glib_log_handler, lh_data = None\<rparr>,
      \<lparr>lh_domain = ''WebKit'', lh_levels = - 1, lh_func = Webkit_glib_log_handler, lh_data = None\<rparr>]
     @ reg"
  by (simp add: webkit_setup_glib_log_handlers_def g_log_set_handler_def interception_mask
      domain_key_def)

lemma find_recognized:
  "d \<in> set recognized_domains \<Longrightarrow>
   g_log_find_handler (webkit_setup_glib_log_handlers reg) d X =
     Some \<lparr>lh_domain = domain_key d, lh_levels = - 1, lh_func = Webkit_glib_log_handler,
           lh_data = None\<rparr>"
  by (auto simp: recognized_domains_def setup_entries g_log_find_handler_def domain_key_def)

lemma deliver_recognized:
  "d \<in> set recognized_domains \<Longrightarrow>
   g_log_deliver (webkit_setup_glib_log_handlers reg) sink d X T w = sink d (sint X) T w"
  by (simp add: g_log_deliver_def find_recognized webkit_glib_log_handler_def)

lemma route_recognized:
  "d \<in> set recognized_domains \<Longrightarrow>
   g_log_route (webkit_setup_glib_log_handlers reg) d X = To_interception"
  by (simp add: g_log_route_def find_recognized)

lemma webkit_in_recognized: "Some ''WebKit'' \<in> set recognized_domains"
  by (simp add: recognized_domains_def)




lemma level_bit_fatal:
  "(push_bit i 1 OR G_LOG_FLAG_FATAL :: 32 word) AND G_LOG_FLAG_FATAL \<noteq> 0"
proof
  assume "(push_bit i 1 OR G_LOG_FLAG_FATAL :: 32 word) AND G_LOG_FLAG_FATAL = 0"
  then have "\<not> bit ((push_bit i 1 OR G_LOG_FLAG_FATAL :: 32 word) AND G_LOG_FLAG_FATAL) 1"
    by simp
  then show False by (simp add: G_LOG_FLAG_FATAL_def bit_simps)
qed

lemma level_bit_no_recursion:
  "2 \<le> i \<Longrightarrow> (push_bit i 1 OR G_LOG_FLAG_FATAL :: 32 word) AND G_LOG_FLAG_RECURSION = 0"
  by (rule bit_eqI) (auto simp: G_LOG_FLAG_FATAL_def G_LOG_FLAG_RECURSION_def bit_simps)

lemma flags_mask: "G_LOG_FLAG_RECURSION OR G_LOG_FLAG_FATAL = (mask 2 :: 32 word)"
  by (simp add: G_LOG_FLAG_FATAL_def G_LOG_FLAG_RECURSION_def mask_eq_exp_minus_1)

lemma level_bit_masked:
  assumes "2 \<le> i"
  shows "(push_bit i 1 OR G_LOG_FLAG_FATAL :: 32 word) AND G_LOG_LEVEL_MASK = push_bit i 1"
proof (rule bit_eqI)
  fix n
  assume "possible_bit TYPE(32 word) n"
  have f: "bit (G_LOG_FLAG_FATAL :: 32 word) n = (n = 1)"
    by (auto simp: G_LOG_FLAG_FATAL_def bit_simps)
  have m: "bit (G_LOG_LEVEL_MASK :: 32 word) n = (n < 32 \<and> 2 \<le> n)"
    unfolding G_LOG_LEVEL_MASK_def flags_mask by (auto simp: bit_simps)
  have p: "bit (push_bit i 1 :: 32 word) n = (n = i \<and> i < 32)"
    by (auto simp: bit_simps)
  show "bit ((push_bit i 1 OR G_LOG_FLAG_FATAL :: 32 word) AND G_LOG_LEVEL_MASK) n =
        bit (push_bit i 1 :: 32 word) n"
    unfolding bit_and_iff bit_or_iff f m p using assms by auto
qed

lemma level_bit_nonzero: "i < 32 \<Longrightarrow> (push_bit i 1 :: 32 word) \<noteq> 0"
proof
  assume i: "i < 32" and "(push_bit i 1 :: 32 word) = 0"
  then have "\<not> bit (push_bit i 1 :: 32 word) i" by simp
  with i show False by (simp add: bit_simps)
qed

lemma level_bit_only:
  "i < 32 \<Longrightarrow> bit (push_bit i 1 :: 32 word) j = (j = i)"
  by (auto simp: bit_simps)

lemma fatal_absorbed:
  "(push_bit i 1 OR G_LOG_FLAG_FATAL) OR G_LOG_FLAG_FATAL = (push_bit i 1 OR G_LOG_FLAG_FATAL :: 32 word)"
  by (simp add: or.assoc)

lemma g_logv_levels_fatal:
  assumes d: "d \<in> set recognized_domains" and i: "2 \<le> i" "i < 32"
  shows "i \<in> set js \<Longrightarrow>
    g_logv_levels (webkit_setup_glib_log_handlers reg) sink fatal_mask 0 d True False
      (push_bit i 1) T js w =
    Aborted (sink d (sint (push_bit i 1 OR G_LOG_FLAG_FATAL :: 32 word)) T w)"
proof (induction js)
  case Nil
  then show ?case by simp
next
  case (Cons j js)
  show ?case
  proof (cases "j = i")
    case True
    have b: "bit (push_bit i 1 :: 32 word) i" using i by (simp only: level_bit_only simp_thms)
    show ?thesis
      unfolding True g_logv_levels.simps Let_def
      by (simp only: b if_True if_False fatal_absorbed level_bit_fatal
          level_bit_no_recursion [OF i(1)] deliver_recognized [OF d] simp_thms less_irrefl
          if_cancel)
  next
    case False
    have b: "\<not> bit (push_bit i 1 :: 32 word) j" using i False by (simp only: level_bit_only simp_thms)
    from Cons.prems False have "i \<in> set js" by simp
    then have "g_logv_levels (webkit_setup_glib_log_handlers reg) sink fatal_mask 0 d True False
      (push_bit i 1) T js w =
      Aborted (sink d (sint (push_bit i 1 OR G_LOG_FLAG_FATAL :: 32 word)) T w)"
      by (rule Cons.IH)
    then show ?thesis
      unfolding g_logv_levels.simps by (simp only: b if_False)
  qed
qed

lemma g_logv_fatal:
  assumes d: "d \<in> set recognized_domains" and i: "2 \<le> i" "i < 32"
  shows "g_logv (webkit_setup_glib_log_handlers reg) sink fatal_mask 0 d
           (push_bit i 1 OR G_LOG_FLAG_FATAL) T w =
         Aborted (sink d (sint (push_bit i 1 OR G_LOG_FLAG_FATAL :: 32 word)) T w)"
proof -
  have "i \<in> set (rev [0..<32])" using i by simp
  then show ?thesis
    using i level_bit_fatal [of i] level_bit_no_recursion [of i]
    by (simp only: g_logv_def level_bit_masked level_bit_nonzero if_False simp_thms
        g_logv_levels_fatal [OF d i])
qed

text \<open>
  Claim C4, as amended. \<^verbatim>\<open>webkit_setup_glib_log_handlers\<close> puts four handlers in
  front of the registry, one per recognized domain, each the interception handler
  with a mask that holds the fatal flag, the recursion flag and every level bit.
  A message at one level that is flagged fatal, emitted on a recognized domain
  outside any handler, is therefore routed to the interception handler and
  reaches the callback of the host in exactly one call. That does not keep the
  process alive: once the handler has returned, the logging library aborts.
\<close>

theorem fatal_messages_reach_sink_before_abort:
  "map lh_domain (take 4 (webkit_setup_glib_log_handlers reg)) = map domain_key (rev recognized_domains) \<and>
   drop 4 (webkit_setup_glib_log_handlers reg) = reg \<and>
   (\<forall>h \<in> set (take 4 (webkit_setup_glib_log_handlers reg)).
      lh_func h = Webkit_glib_log_handler \<and>
      lh_levels h AND G_LOG_FLAG_FATAL = G_LOG_FLAG_FATAL \<and>
      lh_levels h AND G_LOG_FLAG_RECURSION = G_LOG_FLAG_RECURSION \<and>
      lh_levels h AND G_LOG_LEVEL_MASK = G_LOG_LEVEL_MASK) \<and>
   (d \<in> set recognized_domains \<and> 2 \<le> i \<and> i < 32 \<longrightarrow>
      g_log_route (webkit_setup_glib_log_handlers reg) d (push_bit i 1 OR G_LOG_FLAG_FATAL) =
        To_interception \<and>
      g_logv (webkit_setup_glib_log_handlers reg) sink fatal_mask 0 d
        (push_bit i 1 OR G_LOG_FLAG_FATAL) T w =
        Aborted (sink d (sint (push_bit i 1 OR G_LOG_FLAG_FATAL :: 32 word)) T w) \<and>
      g_logv (webkit_setup_glib_log_handlers reg) recording_sink fatal_mask 0 d
        (push_bit i 1 OR G_LOG_FLAG_FATAL) T calls =
        Aborted (calls @ [(d, sint (push_bit i 1 OR G_LOG_FLAG_FATAL :: 32 word), T)]))"
proof -
  have masks: "map lh_domain (take 4 (webkit_setup_glib_log_handlers reg)) =
      map domain_key (rev recognized_domains) \<and>
    drop 4 (webkit_setup_glib_log_handlers reg) = reg \<and>
    (\<forall>h \<in> set (take 4 (webkit_setup_glib_log_handlers reg)).
      lh_func h = Webkit_glib_log_handler \<and>
      lh_levels h AND G_LOG_FLAG_FATAL = G_LOG_FLAG_FATAL \<and>
      lh_levels h AND G_LOG_FLAG_RECURSION = G_LOG_FLAG_RECURSION \<and>
      lh_levels h AND G_LOG_LEVEL_MASK = G_LOG_LEVEL_MASK)"
    by (simp add: setup_entries recognized_domains_def domain_key_def)
  have routed: "g_log_route (webkit_setup_glib_log_handlers reg) d
      (push_bit i 1 OR G_LOG_FLAG_FATAL) = To_interception"
    if "d \<in> set recognized_domains"
    using that by (rule route_recognized)
  have sunk: "g_logv (webkit_setup_glib_log_handlers reg) sink fatal_mask 0 d
        (push_bit i 1 OR G_LOG_FLAG_FATAL) T w =
        Aborted (sink d (sint (push_bit i 1 OR G_LOG_FLAG_FATAL :: 32 word)) T w)"
    if "d \<in> set recognized_domains" "2 \<le> i" "i < 32"
    using that by (rule g_logv_fatal)
  have recorded: "g_logv (webkit_setup_glib_log_handlers reg) recording_sink fatal_mask 0 d
        (push_bit i 1 OR G_LOG_FLAG_FATAL) T calls =
        Aborted (calls @ [(d, sint (push_bit i 1 OR G_LOG_FLAG_FATAL :: 32 word), T)])"
    if "d \<in> set recognized_domains" "2 \<le> i" "i < 32"
    using g_logv_fatal [OF that, of reg recording_sink fatal_mask T calls]
    by (simp only: recording_sink_def)
  show ?thesis using masks routed sunk recorded by blast
qed

lemma error_fatal_level: "sint (push_bit 2 1 OR G_LOG_FLAG_FATAL :: 32 word) = 6"
  by (simp add: G_LOG_FLAG_FATAL_def)

lemma error_level_bit: "G_LOG_LEVEL_ERROR = push_bit 2 1"
  by (simp add: G_LOG_LEVEL_ERROR_def)

theorem fatal_messages_reach_sink_before_abort_witness:
  "None \<in> set recognized_domains \<and>
   g_log_route (webkit_setup_glib_log_handlers []) None (G_LOG_LEVEL_ERROR OR G_LOG_FLAG_FATAL) =
     To_interception \<and>
   g_logv (webkit_setup_glib_log_handlers []) recording_sink G_LOG_FATAL_MASK 0 None
     (G_LOG_LEVEL_ERROR OR G_LOG_FLAG_FATAL) ''abort'' [] = Aborted [(None, 6, ''abort'')] \<and>
   map lh_levels (take 4 (webkit_setup_glib_log_handlers [])) = [- 1, - 1, - 1, - 1]"
proof -
  have d: "None \<in> set recognized_domains" by (simp add: recognized_domains_def)
  have i: "(2 :: nat) \<le> 2" "(2 :: nat) < 32" by simp_all
  note T = fatal_messages_reach_sink_before_abort
      [of "[]" None 2 recording_sink G_LOG_FATAL_MASK "''abort''" "[]" "[]"]
  have a: "g_log_route (webkit_setup_glib_log_handlers []) None
      (push_bit 2 1 OR G_LOG_FLAG_FATAL) = To_interception"
    using T d i by blast
  have "g_logv (webkit_setup_glib_log_handlers []) recording_sink G_LOG_FATAL_MASK 0 None
     (push_bit 2 1 OR G_LOG_FLAG_FATAL) ''abort'' [] =
     Aborted ([] @ [(None, sint (push_bit 2 1 OR G_LOG_FLAG_FATAL :: 32 word), ''abort'')])"
    using T d i by blast
  then have b: "g_logv (webkit_setup_glib_log_handlers []) recording_sink G_LOG_FATAL_MASK 0 None
     (push_bit 2 1 OR G_LOG_FLAG_FATAL) ''abort'' [] = Aborted [(None, 6, ''abort'')]"
    by (simp only: error_fatal_level append_Nil)
  have c: "map lh_levels (take 4 (webkit_setup_glib_log_handlers [])) = [- 1, - 1, - 1, - 1]"
    by (simp add: setup_entries)
  show ?thesis
    unfolding error_level_bit using d a b c by (intro conjI)
qed

text \<open>
  The claim as first stated has the fatal-flagged message reach the callback
  instead of terminating the process. An error message flagged fatal on the
  \<^verbatim>\<open>WebKit\<close> domain does reach the callback, once, and the process is then
  aborted by the logging library.
\<close>

theorem fatal_message_aborts_counterexample:
  "g_logv (webkit_setup_glib_log_handlers []) recording_sink G_LOG_FATAL_MASK 0 (Some ''WebKit'')
     (G_LOG_LEVEL_ERROR OR G_LOG_FLAG_FATAL) ''boom'' [] =
   Aborted [(Some ''WebKit'', 6, ''boom'')]"
proof -
  have "g_logv (webkit_setup_glib_log_handlers []) recording_sink G_LOG_FATAL_MASK 0
     (Some ''WebKit'') (push_bit 2 1 OR G_LOG_FLAG_FATAL) ''boom'' [] =
     Aborted (recording_sink (Some ''WebKit'') (sint (push_bit 2 1 OR G_LOG_FLAG_FATAL :: 32 word))
       ''boom'' [])"
    by (rule g_logv_fatal) (simp_all add: webkit_in_recognized)
  then show ?thesis
    unfolding error_level_bit by (simp only: error_fatal_level recording_sink_def append_Nil)
qed

end
